theory Spec2Isabelle
  imports Complex_Main "HOL-Library.Product_Lexorder" "HOL-Library.AList"
begin

unbundle bit_operations_syntax

section \<open>Conventions of the embedding\<close>

text \<open>
  The exporter is Python. Its floating-point numbers are modelled as exact rationals
  (\<open>rat\<close>): every finite float is a rational, and the properties below are the ones of
  the arithmetic the code writes down, without rounding error, NaN or infinities.
  Python integers are \<open>int\<close>, list positions are \<open>nat\<close>. A Python exception is a value
  of \<open>exn\<close>, returned as \<open>Inl\<close> of a sum.
\<close>

datatype exn =
    IndexError
  | KeyError
  | ZeroDivisionError
  | ValueError
  | EdgesButNoVerts string
  | OddEdgeIndex string int
  | EdgeIndexOutOfRange string int int

text \<open>The flat list \<open>[a0, b0, a1, b1, ...]\<close> read as the pairs the loops step through.\<close>

fun pairs_of :: "'a list \<Rightarrow> ('a \<times> 'a) list" where
  "pairs_of (a # b # rest) = (a, b) # pairs_of rest"
| "pairs_of _ = []"

section \<open>SPINE\_Output\_meshutils: edge streams\<close>

subsection \<open>\<open>_pairs_to_flat\<close> and \<open>_sanitize_pairs\<close>\<close>

fun pairs_to_flat :: "(int \<times> int) list \<Rightarrow> int list" where
  "pairs_to_flat [] = []"
| "pairs_to_flat ((a, b) # rest) = a # b # pairs_to_flat rest"

text \<open>
  The loop \<open>for i in range(0, len(ints), 2)\<close> of \<open>_sanitize_pairs\<close>, with its set
  \<open>seen\<close> and its output list \<open>out\<close>. It runs on a list of even length.
\<close>

fun sanitize_loop :: "int list \<Rightarrow> (int \<times> int) set \<Rightarrow> int list \<Rightarrow> int list" where
  "sanitize_loop (a # b # rest) seen out =
     (if a = b then sanitize_loop rest seen out
      else
        let p = (if a < b then (a, b) else (b, a)) in
        if p \<in> seen then sanitize_loop rest seen out
        else sanitize_loop rest (insert p seen) (out @ [fst p, snd p]))"
| "sanitize_loop _ seen out = out"

definition sanitize_pairs :: "int list \<Rightarrow> int \<Rightarrow> int list" where
  "sanitize_pairs flat_list vcount =
     (let ints = filter (\<lambda>xi. 0 \<le> xi \<and> xi < max 0 vcount) flat_list;
          ints = (if length ints mod 2 \<noteq> 0 then butlast ints else ints)
      in sanitize_loop ints {} [])"

subsection \<open>\<open>encode_spine_edges\<close>\<close>

fun encode_loop :: "int list \<Rightarrow> int \<Rightarrow> int list \<Rightarrow> int list" where
  "encode_loop (x # y # rest) max_stream out =
     (let a = x * 2; b = y * 2 in
      if 0 \<le> a \<and> a \<le> max_stream \<and> 0 \<le> b \<and> b \<le> max_stream \<and> a \<noteq> b
      then encode_loop rest max_stream (out @ [a, b])
      else encode_loop rest max_stream out)"
| "encode_loop _ max_stream out = out"

definition encode_spine_edges :: "int list \<Rightarrow> int \<Rightarrow> int list" where
  "encode_spine_edges keep_edges_new vertex_count =
     (let clean = sanitize_pairs keep_edges_new vertex_count in
      if clean = [] then []
      else
        let max_stream = vertex_count * 2 - 1
        in encode_loop clean max_stream [])"

subsection \<open>\<open>validate_attachment_edges\<close>\<close>

text \<open>
  The attachment dictionary, with the keys the validation reads. \<open>att.get("edges")\<close>
  is \<open>None\<close> when the key is absent.
\<close>

record attachment =
  att_name :: string
  att_uvs :: "rat list"
  att_triangles :: "int list"
  att_edges :: "int list option"

fun validate_loop :: "string \<Rightarrow> int \<Rightarrow> int list \<Rightarrow> exn + unit" where
  "validate_loop nm max_stream [] = Inr ()"
| "validate_loop nm max_stream (ii # rest) =
     (if ii AND 1 \<noteq> 0 then Inl (OddEdgeIndex nm ii)
      else if ii < 0 \<or> ii > max_stream then Inl (EdgeIndexOutOfRange nm ii max_stream)
      else validate_loop nm max_stream rest)"

definition validate_attachment_edges :: "attachment \<Rightarrow> exn + unit" where
  "validate_attachment_edges att =
     (case att_edges att of
        None \<Rightarrow> Inr ()
      | Some e \<Rightarrow>
          if e = [] then Inr ()
          else
            let vcount = int (length (att_uvs att) div 2) in
            if vcount \<le> 0 then Inl (EdgesButNoVerts (att_name att))
            else validate_loop (att_name att) (vcount * 2 - 1) e)"

section \<open>Python numerics\<close>

text \<open>
  \<open>round(x)\<close> and \<open>round(x, n)\<close> round half to even. \<open>a % m\<close> for a positive float
  \<open>m\<close> is the remainder of the floor division.
\<close>

definition round_half_even :: "rat \<Rightarrow> int" where
  "round_half_even x =
     (let f = \<lfloor>x\<rfloor>; d = x - of_int f in
      if d < 1 / 2 then f
      else if 1 / 2 < d then f + 1
      else if even f then f else f + 1)"

definition py_round :: "rat \<Rightarrow> nat \<Rightarrow> rat" where
  "py_round x n = of_int (round_half_even (x * 10 ^ n)) / 10 ^ n"

definition py_mod :: "rat \<Rightarrow> rat \<Rightarrow> rat" where
  "py_mod a m = a - m * of_int \<lfloor>a / m\<rfloor>"

section \<open>SPINE\_Output\_meshutils: geometry\<close>

type_synonym point = "rat \<times> rat"

definition area2 :: "point \<Rightarrow> point \<Rightarrow> point \<Rightarrow> rat" where
  "area2 A B C = (fst B - fst A) * (snd C - snd A) - (snd B - snd A) * (fst C - fst A)"

text \<open>
  \<open>tri_area2_xy\<close> and the local \<open>cross\<close> of \<open>convex_hull_indices_xy\<close> are the same
  expression. Their callers pass positions below \<open>len(pts)\<close> only (values of
  \<open>range(n)\<close> and of \<open>old_to_new\<close>).
\<close>

definition tri_area2_xy :: "point list \<Rightarrow> nat \<Rightarrow> nat \<Rightarrow> nat \<Rightarrow> rat" where
  "tri_area2_xy pts a b c = area2 (pts ! a) (pts ! b) (pts ! c)"

definition cross :: "point list \<Rightarrow> nat \<Rightarrow> nat \<Rightarrow> nat \<Rightarrow> rat" where
  "cross pts i j k = area2 (pts ! i) (pts ! j) (pts ! k)"

subsection \<open>\<open>convex_hull_indices_xy\<close>\<close>

text \<open>
  The inner \<open>while len(lower) >= 2 and cross(lower[-2], lower[-1], i) <= 0: lower.pop()\<close>.
  The chain is a Python list: its last element is the top of the stack.
\<close>

function pop_while :: "point list \<Rightarrow> nat list \<Rightarrow> nat \<Rightarrow> nat list" where
  "pop_while pts chain i =
     (if 2 \<le> length chain
         \<and> cross pts (chain ! (length chain - 2)) (chain ! (length chain - 1)) i \<le> 0
      then pop_while pts (butlast chain) i
      else chain)"
  by pat_completeness auto
termination
  by (relation "measure (\<lambda>(pts, chain, i). length chain)") auto

definition chain_step :: "point list \<Rightarrow> nat list \<Rightarrow> nat \<Rightarrow> nat list" where
  "chain_step pts chain i = pop_while pts chain i @ [i]"

definition build_chain :: "point list \<Rightarrow> nat list \<Rightarrow> nat list" where
  "build_chain pts idxs = foldl (chain_step pts) [] idxs"

text \<open>The closing loop: drop repeated indices, keeping the first occurrence.\<close>

fun dedup_loop :: "nat list \<Rightarrow> nat set \<Rightarrow> nat list \<Rightarrow> nat list" where
  "dedup_loop [] seen out = out"
| "dedup_loop (i # rest) seen out =
     (if i \<notin> seen then dedup_loop rest (insert i seen) (out @ [i])
      else dedup_loop rest seen out)"

definition convex_hull_indices_xy :: "point list \<Rightarrow> nat list" where
  "convex_hull_indices_xy pts =
     (let n = length pts in
      if n \<le> 3 then [0..<n]
      else
        let sorted_idx = sort_key (\<lambda>i. pts ! i) [0..<n];
            lower = build_chain pts sorted_idx;
            upper = build_chain pts (rev sorted_idx);
            hull0 = butlast lower @ butlast upper
        in dedup_loop hull0 {} [])"

subsection \<open>\<open>hull_first_reorder\<close>\<close>

record 's reordered =
  r_region_xy :: "point list"
  r_uvs :: "rat list"
  r_new_to_src :: "'s list"
  r_triangles :: "nat list"
  r_hull_idx :: "nat list"

text \<open>\<open>{old: i for i, old in enumerate(new_order)}\<close>: a later position overwrites.\<close>

definition old_to_new_of :: "nat list \<Rightarrow> (nat \<rightharpoonup> nat)" where
  "old_to_new_of new_order =
     foldl (\<lambda>m (i, old). m(old \<mapsto> i)) Map.empty (enumerate 0 new_order)"

text \<open>
  The loop over the source triangles. \<open>triangles[i+1]\<close> past the end raises IndexError,
  an index that is no key of \<open>old_to_new\<close> raises KeyError.
\<close>

fun remap_loop ::
  "point list \<Rightarrow> (nat \<rightharpoonup> nat) \<Rightarrow> nat list \<Rightarrow> nat list \<Rightarrow> exn + nat list" where
  "remap_loop region_xy2 old_to_new [] remapped_tris = Inr remapped_tris"
| "remap_loop region_xy2 old_to_new (a # b # c # rest) remapped_tris =
     (case (old_to_new a, old_to_new b, old_to_new c) of
        (Some a2, Some b2, Some c2) \<Rightarrow>
          let area2 = tri_area2_xy region_xy2 a2 b2 c2 in
          if \<bar>area2\<bar> < 1 / 10 ^ 9 then remap_loop region_xy2 old_to_new rest remapped_tris
          else
            let (b2, c2) = (if area2 < 0 then (c2, b2) else (b2, c2))
            in remap_loop region_xy2 old_to_new rest (remapped_tris @ [a2, b2, c2])
      | _ \<Rightarrow> Inl KeyError)"
| "remap_loop region_xy2 old_to_new _ remapped_tris = Inl IndexError"

definition fan_triangles :: "nat \<Rightarrow> nat list" where
  "fan_triangles n = concat (map (\<lambda>i. [0, i, i + 1]) [1..<n - 1])"

definition hull_first_reorder ::
  "point list \<Rightarrow> rat list \<Rightarrow> 's list \<Rightarrow> nat list \<Rightarrow> exn + 's reordered" where
  "hull_first_reorder region_xy_centered uvs new_to_src triangles =
     (let n = length region_xy_centered;
          hull_idx = (if 3 \<le> n then convex_hull_indices_xy region_xy_centered else [0..<n]);
          tail_idx = filter (\<lambda>i. i \<notin> set hull_idx) [0..<n];
          new_order = hull_idx @ tail_idx;
          old_to_new = old_to_new_of new_order;
          region_xy2 = map (\<lambda>old. region_xy_centered ! old) new_order;
          uvs_pairs = map (\<lambda>i. (uvs ! (i * 2), uvs ! (i * 2 + 1))) [0..<length uvs div 2]
      in
      if \<exists>old \<in> set new_order. length uvs_pairs \<le> old then Inl IndexError
      else
        let uvs_pairs2 = map (\<lambda>old. uvs_pairs ! old) new_order;
            uvs2 = concat (map (\<lambda>(x, y). [x, y]) uvs_pairs2)
        in
        if \<exists>old \<in> set new_order. length new_to_src \<le> old then Inl IndexError
        else
          let new_to_src2 = map (\<lambda>old. new_to_src ! old) new_order in
          case remap_loop region_xy2 old_to_new triangles [] of
            Inl e \<Rightarrow> Inl e
          | Inr remapped_tris \<Rightarrow>
              let remapped_tris =
                    (if remapped_tris = [] \<and> 3 \<le> length region_xy2
                     then fan_triangles (length region_xy2) else remapped_tris)
              in Inr \<lparr>r_region_xy = region_xy2, r_uvs = uvs2, r_new_to_src = new_to_src2,
                      r_triangles = remapped_tris, r_hull_idx = hull_idx\<rparr>)"

subsection \<open>\<open>build_region_vertices_uvs\<close>, \<open>remap_triangles_to_new\<close>, \<open>center_region_xy\<close>\<close>

text \<open>
  The mesh as the region builder reads it: \<open>me.loops[li].vertex_index\<close> for every loop,
  and for every loop triangle its three loop indices and its three vertex indices. The UV
  layer is \<open>None\<close> or the list of \<open>uv_layer.data[li].uv\<close> as pairs \<open>(x, y)\<close>.
\<close>

record loop_triangle =
  lt_loops :: "nat \<times> nat \<times> nat"
  lt_vertices :: "nat \<times> nat \<times> nat"

record mesh =
  me_loops :: "nat list"
  me_loop_triangles :: "loop_triangle list"

type_synonym loopkey = "nat \<times> rat \<times> rat"

text \<open>
  The four results. The dictionary \<open>loopkey_to_new\<close> is an association list in insertion
  order; a key is appended only when it is absent, and \<open>len(loopkey_to_new)\<close> is the
  length of the list.
\<close>

record region_build =
  rb_uvs :: "rat list"
  rb_region_xy :: "point list"
  rb_new_to_src :: "(nat \<times> nat) list"
  rb_loopkey_to_new :: "(loopkey \<times> nat) list"

definition loop_uv :: "point list option \<Rightarrow> nat \<Rightarrow> rat \<times> rat" where
  "loop_uv uv_layer li =
     (case uv_layer of
        Some data \<Rightarrow>
          if li < length data then (fst (data ! li), 1 - snd (data ! li)) else (0, 1)
      | None \<Rightarrow> (0, 1))"

definition loop_key :: "point list option \<Rightarrow> nat \<Rightarrow> nat \<Rightarrow> loopkey" where
  "loop_key uv_layer li vi =
     (let (u, v) = loop_uv uv_layer li in (vi, py_round u 6, py_round v 6))"

definition region_step ::
  "point list option \<Rightarrow> rat \<Rightarrow> rat \<Rightarrow> region_build \<Rightarrow> nat \<times> nat \<Rightarrow> region_build" where
  "region_step uv_layer img_w img_h st = (\<lambda>(li, vi).
     let cx = img_w * (1 / 2); cy = img_h * (1 / 2);
         (u, v) = loop_uv uv_layer li;
         key = (vi, py_round u 6, py_round v 6)
     in
     if map_of (rb_loopkey_to_new st) key = None then
       let vx = u * img_w - cx; vy = cy - v * img_h in
       \<lparr>rb_uvs = rb_uvs st @ [py_round u 6, py_round v 6],
        rb_region_xy = rb_region_xy st @ [(vx, vy)],
        rb_new_to_src = rb_new_to_src st @ [(vi, li)],
        rb_loopkey_to_new = rb_loopkey_to_new st @ [(key, length (rb_loopkey_to_new st))]\<rparr>
     else st)"

definition build_region_vertices_uvs ::
  "mesh \<Rightarrow> point list option \<Rightarrow> rat \<Rightarrow> rat \<Rightarrow> region_build" where
  "build_region_vertices_uvs me uv_layer img_w img_h =
     foldl (region_step uv_layer img_w img_h)
       \<lparr>rb_uvs = [], rb_region_xy = [], rb_new_to_src = [], rb_loopkey_to_new = []\<rparr>
       (enumerate 0 (me_loops me))"

definition uv_key :: "point list option \<Rightarrow> nat \<Rightarrow> nat \<Rightarrow> loopkey" where
  "uv_key uv_layer v_index l_index =
     (case uv_layer of
        Some data \<Rightarrow>
          if l_index < length data
          then (v_index, py_round (fst (data ! l_index)) 6, py_round (1 - snd (data ! l_index)) 6)
          else (v_index, 0, 1)
      | None \<Rightarrow> (v_index, 0, 1))"

fun remap_triangles_loop ::
  "point list option \<Rightarrow> (loopkey \<times> nat) list \<Rightarrow> loop_triangle list \<Rightarrow> nat list \<Rightarrow> nat list" where
  "remap_triangles_loop uv_layer loopkey_to_new [] triangles = triangles"
| "remap_triangles_loop uv_layer loopkey_to_new (lt # rest) triangles =
     (let (l0, l1, l2) = lt_loops lt;
          (v0, v1, v2) = lt_vertices lt;
          k0 = uv_key uv_layer v0 l0;
          k1 = uv_key uv_layer v1 l1;
          k2 = uv_key uv_layer v2 l2
      in
      case (map_of loopkey_to_new k0, map_of loopkey_to_new k1, map_of loopkey_to_new k2) of
        (Some a, Some b, Some c) \<Rightarrow>
          remap_triangles_loop uv_layer loopkey_to_new rest (triangles @ [a, b, c])
      | _ \<Rightarrow> remap_triangles_loop uv_layer loopkey_to_new rest triangles)"

definition remap_triangles_to_new ::
  "mesh \<Rightarrow> point list option \<Rightarrow> (loopkey \<times> nat) list \<Rightarrow> nat list" where
  "remap_triangles_to_new me uv_layer loopkey_to_new =
     remap_triangles_loop uv_layer loopkey_to_new (me_loop_triangles me) []"

text \<open>Dividing by \<open>len(region_xy)\<close> raises ZeroDivisionError on an empty list.\<close>

definition center_region_xy :: "point list \<Rightarrow> exn + (point list \<times> rat \<times> rat)" where
  "center_region_xy region_xy =
     (if region_xy = [] then Inl ZeroDivisionError
      else
        let cx = sum_list (map fst region_xy) / of_nat (length region_xy);
            cy = sum_list (map snd region_xy) / of_nat (length region_xy)
        in Inr (map (\<lambda>(x, y). (x - cx, y - cy)) region_xy, cx, cy))"

subsection \<open>\<open>prepare_region\<close>\<close>

text \<open>
  \<open>rotate_fn\<close> is a caller's function (\<open>rotate2d\<close> of the helpers, built on
  \<open>math.cos\<close> and \<open>math.sin\<close>) or \<open>None\<close>; it is a parameter here.
\<close>

definition prepare_region ::
  "mesh \<Rightarrow> point list option \<Rightarrow> rat \<Rightarrow> rat \<Rightarrow> (rat \<Rightarrow> rat \<Rightarrow> rat \<Rightarrow> point) option \<Rightarrow> rat
     \<Rightarrow> exn + (nat \<times> nat) reordered" where
  "prepare_region me uv_layer img_w img_h rotate_fn rotate_deg =
     (let rb = build_region_vertices_uvs me uv_layer img_w img_h;
          region_xy =
            (case rotate_fn of
               Some rf \<Rightarrow>
                 if \<bar>rotate_deg\<bar> > 1 / 10 ^ 9
                 then map (\<lambda>(x, y). rf x y rotate_deg) (rb_region_xy rb)
                 else rb_region_xy rb
             | None \<Rightarrow> rb_region_xy rb);
          triangles = remap_triangles_to_new me uv_layer (rb_loopkey_to_new rb)
      in
      case center_region_xy region_xy of
        Inl e \<Rightarrow> Inl e
      | Inr (region_xy_centered, _, _) \<Rightarrow>
          hull_first_reorder region_xy_centered (rb_uvs rb) (rb_new_to_src rb) triangles)"

section \<open>SPINE\_Output\_meshutils: edge derivation\<close>

subsection \<open>\<open>_edge_counts_from_tris\<close> and the boundary edges\<close>

definition canon :: "int \<times> int \<Rightarrow> int \<times> int" where
  "canon e = (if fst e < snd e then (fst e, snd e) else (snd e, fst e))"

text \<open>
  \<open>counts[(u,v)] = counts.get((u,v), 0) + 1\<close> on a dictionary kept in insertion order: an
  existing key keeps its place, a new key goes to the end.
\<close>

definition bump :: "((int \<times> int) \<times> nat) list \<Rightarrow> int \<times> int \<Rightarrow> ((int \<times> int) \<times> nat) list" where
  "bump counts e =
     AList.update e (case map_of counts e of None \<Rightarrow> 1 | Some n \<Rightarrow> n + 1) counts"

fun edge_counts_loop ::
  "int list \<Rightarrow> ((int \<times> int) \<times> nat) list \<Rightarrow> exn + ((int \<times> int) \<times> nat) list" where
  "edge_counts_loop [] counts = Inr counts"
| "edge_counts_loop (a # b # c # rest) counts =
     edge_counts_loop rest (foldl (\<lambda>cs e. bump cs (canon e)) counts [(a, b), (b, c), (c, a)])"
| "edge_counts_loop _ counts = Inl IndexError"

definition edge_counts_from_tris :: "int list \<Rightarrow> exn + ((int \<times> int) \<times> nat) list" where
  "edge_counts_from_tris tri_indices = edge_counts_loop tri_indices []"

definition tri_boundary_edges_from_tris :: "int list \<Rightarrow> exn + (int \<times> int) list" where
  "tri_boundary_edges_from_tris tri_indices =
     (case edge_counts_from_tris tri_indices of
        Inl e \<Rightarrow> Inl e
      | Inr counts \<Rightarrow> Inr (map fst (filter (\<lambda>(e, cnt). cnt = 1) counts)))"

definition tri_internal_edges_from_tris :: "int list \<Rightarrow> exn + (int \<times> int) list" where
  "tri_internal_edges_from_tris tri_indices =
     (case edge_counts_from_tris tri_indices of
        Inl e \<Rightarrow> Inl e
      | Inr counts \<Rightarrow> Inr (map fst (filter (\<lambda>(e, cnt). cnt = 2) counts)))"

subsection \<open>\<open>_map_src_edge_to_new\<close>\<close>

text \<open>
  The scan over \<open>enumerate(new_to_src)\<close> with its two \<open>break\<close>s; the state is
  \<open>(first_i, first_j)\<close>.
\<close>

fun map_src_scan ::
  "int \<Rightarrow> int \<Rightarrow> (nat \<times> (int \<times> 'l)) list \<Rightarrow> nat option \<Rightarrow> nat option
     \<Rightarrow> nat option \<times> nat option" where
  "map_src_scan src_i src_j [] first_i first_j = (first_i, first_j)"
| "map_src_scan src_i src_j ((new_idx, (svi, loopi)) # rest) first_i first_j =
     (if first_i = None \<and> svi = src_i then
        (if first_j \<noteq> None then (Some new_idx, first_j)
         else if svi = src_j then (Some new_idx, Some new_idx)
         else map_src_scan src_i src_j rest (Some new_idx) first_j)
      else if first_j = None \<and> svi = src_j then
        (if first_i \<noteq> None then (first_i, Some new_idx)
         else map_src_scan src_i src_j rest first_i (Some new_idx))
      else map_src_scan src_i src_j rest first_i first_j)"

definition map_src_edge_to_new :: "int \<times> int \<Rightarrow> (int \<times> 'l) list \<Rightarrow> (int \<times> int) option" where
  "map_src_edge_to_new src_edge new_to_src =
     (case map_src_scan (fst src_edge) (snd src_edge) (enumerate 0 new_to_src) None None of
        (Some first_i, Some first_j) \<Rightarrow>
          if first_i = first_j then None
          else if first_i < first_j then Some (int first_i, int first_j)
          else Some (int first_j, int first_i)
      | _ \<Rightarrow> None)"

subsection \<open>\<open>build_edges_from_tris_and_manual\<close>\<close>

text \<open>
  A mesh edge of the host: its vertex indices and its seam and sharp flags. The set
  \<open>edge_pairs\<close> is a list without repetitions (\<open>set_add\<close>); the code reads it through
  \<open>sorted\<close> only, so the order of insertion does not show. The parameter \<open>m\<close> is the
  mode after \<open>(mode or _default_edge_mode()).strip().lower()\<close>.
\<close>

record mesh_edge =
  e_vertices :: "int list"
  e_use_seam :: bool
  e_use_edge_sharp :: bool

definition set_add :: "'a list \<Rightarrow> 'a \<Rightarrow> 'a list" where
  "set_add s x = (if x \<in> set s then s else s @ [x])"

definition add_boundary :: "int \<Rightarrow> (int \<times> int) list \<Rightarrow> int \<times> int \<Rightarrow> (int \<times> int) list" where
  "add_boundary vcount edge_pairs = (\<lambda>(a, b).
     if 0 \<le> a \<and> a < vcount \<and> 0 \<le> b \<and> b < vcount \<and> a \<noteq> b
     then set_add edge_pairs (if a < b then (a, b) else (b, a))
     else edge_pairs)"

definition add_manual ::
  "string \<Rightarrow> bool \<Rightarrow> bool \<Rightarrow> (int \<times> 'l) list \<Rightarrow> int \<Rightarrow> (int \<times> int) list \<Rightarrow> mesh_edge
     \<Rightarrow> (int \<times> int) list" where
  "add_manual m use_seams use_sharp new_to_src vcount edge_pairs e =
     (case e_vertices e of
        sv0 # sv1 # _ \<Rightarrow>
          if m \<noteq> ''all'' \<and> \<not> ((use_seams \<and> e_use_seam e) \<or> (use_sharp \<and> e_use_edge_sharp e))
          then edge_pairs
          else
            (case map_src_edge_to_new (sv0, sv1) new_to_src of
               None \<Rightarrow> edge_pairs
             | Some mapped \<Rightarrow>
                 let (u, v) = (if fst mapped < snd mapped then mapped else (snd mapped, fst mapped))
                 in if 0 \<le> u \<and> u < vcount \<and> 0 \<le> v \<and> v < vcount \<and> u \<noteq> v
                    then set_add edge_pairs (u, v) else edge_pairs)
      | _ \<Rightarrow> edge_pairs)"

definition build_edges_from_tris_and_manual ::
  "int list \<Rightarrow> (int \<times> 'l) list \<Rightarrow> point list option \<Rightarrow> mesh_edge list option \<Rightarrow> string
     \<Rightarrow> bool \<Rightarrow> bool \<Rightarrow> bool \<Rightarrow> exn + int list" where
  "build_edges_from_tris_and_manual triangles new_to_src region_xy me_edges m
       use_seams use_sharp include_boundary =
     (let vcount = (case region_xy of Some r \<Rightarrow> int (length r) | None \<Rightarrow> int (length new_to_src));
          boundary =
            (if m \<in> {''boundary'', ''mixed'', ''all''} \<and> include_boundary \<and> triangles \<noteq> []
             then (case tri_boundary_edges_from_tris triangles of
                     Inl e \<Rightarrow> Inl e
                   | Inr bs \<Rightarrow> Inr (foldl (add_boundary vcount) [] bs))
             else Inr [])
      in
      case boundary of
        Inl e \<Rightarrow> Inl e
      | Inr edge_pairs \<Rightarrow>
          let edge_pairs =
                (case me_edges of
                   Some es \<Rightarrow>
                     if m \<in> {''manual'', ''mixed'', ''all''}
                     then foldl (add_manual m use_seams use_sharp new_to_src vcount) edge_pairs es
                     else edge_pairs
                 | None \<Rightarrow> edge_pairs);
              flat = pairs_to_flat (sort edge_pairs)
          in Inr (sanitize_pairs flat vcount))"

text \<open>
  The multiplicity of an undirected edge in a triangle list, said without the dictionary:
  how many of the sides \<open>(a,b), (b,c), (c,a)\<close> of the triangles are that edge.
\<close>

fun tri_sides :: "int list \<Rightarrow> (int \<times> int) list" where
  "tri_sides (a # b # c # rest) = [(a, b), (b, c), (c, a)] @ tri_sides rest"
| "tri_sides _ = []"

definition edge_multiplicity :: "int list \<Rightarrow> int \<times> int \<Rightarrow> nat" where
  "edge_multiplicity tris e = count_list (map canon (tri_sides tris)) e"

text \<open>The loop invariant of \<open>_edge_counts_from_tris\<close>: the dictionary counts the sides seen so far.\<close>

definition counts_inv :: "((int \<times> int) \<times> nat) list \<Rightarrow> (int \<times> int) list \<Rightarrow> bool" where
  "counts_inv cs xs \<longleftrightarrow>
     distinct (map fst cs) \<and>
     (\<forall>e. map_of cs e = (if count_list xs e = 0 then None else Some (count_list xs e)))"


text \<open>The flat triangle list read as triples.\<close>

fun triples_of :: "'a list \<Rightarrow> ('a \<times> 'a \<times> 'a) list" where
  "triples_of (a # b # c # rest) = (a, b, c) # triples_of rest"
| "triples_of _ = []"


text \<open>
  The NEW index of a loop: what \<open>loopkey_to_new\<close> holds for the loop's key, as
  \<open>remap_triangles_to_new\<close> looks it up.
\<close>

definition new_index_of :: "region_build \<Rightarrow> point list option \<Rightarrow> mesh \<Rightarrow> nat \<Rightarrow> nat option" where
  "new_index_of rb uv_layer me li =
     map_of (rb_loopkey_to_new rb) (loop_key uv_layer li (me_loops me ! li))"

text \<open>The invariant of the loop of \<open>build_region_vertices_uvs\<close>.\<close>

definition region_inv :: "region_build \<Rightarrow> bool" where
  "region_inv st \<longleftrightarrow>
     distinct (map fst (rb_loopkey_to_new st)) \<and>
     map snd (rb_loopkey_to_new st) = [0..<length (rb_loopkey_to_new st)] \<and>
     length (rb_new_to_src st) = length (rb_loopkey_to_new st) \<and>
     length (rb_region_xy st) = length (rb_loopkey_to_new st) \<and>
     length (rb_uvs st) = 2 * length (rb_loopkey_to_new st)"


section \<open>SPINE\_Output\_weights\<close>

text \<open>
  What \<open>build_vertex_influences\<close> reads of the host object: the names of
  \<open>obj.vertex_groups\<close> in order, and for every vertex of \<open>obj.data.vertices\<close> its index
  and its group elements \<open>(g.group, g.weight)\<close>.
\<close>

record vgroup_elem =
  g_group :: nat
  g_weight :: rat

record mesh_vertex =
  v_index :: nat
  v_groups :: "vgroup_elem list"

record weighted_obj =
  vertex_groups :: "string list"
  vertices :: "mesh_vertex list"

text \<open>\<open>{i: vg.name for i, vg in enumerate(obj.vertex_groups)}.get(i)\<close>\<close>

definition vg_index_to_name :: "string list \<Rightarrow> nat \<Rightarrow> string option" where
  "vg_index_to_name vgs i = (if i < length vgs then Some (vgs ! i) else None)"

text \<open>
  The loop \<open>for g in v.groups\<close>. \<open>vg_name and ...\<close> is false for \<open>None\<close> and for the empty
  string.
\<close>

fun collect_raw ::
  "string list \<Rightarrow> string set \<Rightarrow> vgroup_elem list \<Rightarrow> (string \<times> rat) list \<Rightarrow> (string \<times> rat) list" where
  "collect_raw vgs deform_names [] infl_raw = infl_raw"
| "collect_raw vgs deform_names (g # gs) infl_raw =
     (case vg_index_to_name vgs (g_group g) of
        Some vg_name \<Rightarrow>
          if vg_name \<noteq> [] \<and> vg_name \<in> deform_names \<and> g_weight g > 0
          then collect_raw vgs deform_names gs (infl_raw @ [(vg_name, g_weight g)])
          else collect_raw vgs deform_names gs infl_raw
      | None \<Rightarrow> collect_raw vgs deform_names gs infl_raw)"

text \<open>The slice \<open>xs[:n]\<close>; a negative \<open>n\<close> counts from the end.\<close>

definition py_take :: "int \<Rightarrow> 'a list \<Rightarrow> 'a list" where
  "py_take n xs = (if 0 \<le> n then take (nat n) xs else take (length xs - nat (- n)) xs)"

text \<open>
  The body of the loop over the vertices. \<open>sort(key=lambda t: t[1], reverse=True)\<close> is
  stable: equal weights keep their order, as the stable ascending sort on the negated
  weight does.
\<close>

definition vertex_influences ::
  "string list \<Rightarrow> string set \<Rightarrow> rat \<Rightarrow> int \<Rightarrow> string \<Rightarrow> mesh_vertex \<Rightarrow> (string \<times> rat) list" where
  "vertex_influences vgs deform_names weight_eps max_influences fallback_bone v =
     (let infl_raw = collect_raw vgs deform_names (v_groups v) [];
          infl_raw = filter (\<lambda>(bn, w). w > weight_eps) infl_raw;
          infl_raw = sort_key (\<lambda>(bn, w). - w) infl_raw;
          infl_raw = py_take max_influences infl_raw
      in
      if infl_raw \<noteq> [] then
        let s = sum_list (map snd infl_raw)
        in map (\<lambda>(bn, w). (bn, if s > 0 then w / s else 0)) infl_raw
      else [(fallback_bone, 1)])"

definition build_vertex_influences ::
  "weighted_obj \<Rightarrow> string set \<Rightarrow> rat \<Rightarrow> int \<Rightarrow> string \<Rightarrow> (nat \<rightharpoonup> (string \<times> rat) list)" where
  "build_vertex_influences obj deform_names weight_eps max_influences fallback_bone =
     foldl (\<lambda>out v. out(v_index v \<mapsto>
              vertex_influences (vertex_groups obj) deform_names weight_eps max_influences
                fallback_bone v))
       Map.empty (vertices obj)"

text \<open>
  The same list in the words of the specification: the (bone, weight) pairs of the vertex
  restricted to deform bones with weight \<open>> 0\<close>; those \<open>\<le> epsilon\<close> dropped; sorted by
  descending weight; cut to \<open>max_influences\<close>; renormalised to sum 1; the single
  fallback entry when nothing is left.
\<close>

definition deform_pairs :: "string list \<Rightarrow> string set \<Rightarrow> mesh_vertex \<Rightarrow> (string \<times> rat) list" where
  "deform_pairs vgs deform_names v =
     concat (map (\<lambda>g. if g_group g < length vgs \<and> vgs ! g_group g \<noteq> []
                            \<and> vgs ! g_group g \<in> deform_names \<and> 0 < g_weight g
                         then [(vgs ! g_group g, g_weight g)] else []) (v_groups v))"

definition spec_influences ::
  "string list \<Rightarrow> string set \<Rightarrow> rat \<Rightarrow> nat \<Rightarrow> string \<Rightarrow> mesh_vertex \<Rightarrow> (string \<times> rat) list" where
  "spec_influences vgs deform_names eps max_n fallback_bone v =
     (let kept = take max_n (sort_key (\<lambda>p. - snd p)
                   (filter (\<lambda>p. eps < snd p) (deform_pairs vgs deform_names v)))
      in if kept = [] then [(fallback_bone, 1)]
         else map (\<lambda>p. (fst p, snd p / sum_list (map snd kept))) kept)"

section \<open>SPINE\_Output\_helpers and the bone rotation of \<open>export_now\<close>\<close>

definition normalize_deg :: "rat \<Rightarrow> rat" where
  "normalize_deg a =
     (let a = py_mod (a + 180) 360 - 180 in
      if a = - 180 then 180 else a)"

definition is_vertical_rel_deg :: "rat \<Rightarrow> rat \<Rightarrow> bool" where
  "is_vertical_rel_deg rel_ccw tol =
     (let rel_n = \<bar>normalize_deg rel_ccw\<bar> in \<bar>rel_n - 90\<bar> \<le> tol)"

text \<open>
  The rotation of a non-root bone in \<open>export_now\<close>, from the frame-space angles of the
  bone and of its parent and \<open>VERTICAL_TOL_DEG\<close>; then the \<open>rotation\<close> field of the bone
  record, absent when the value is within \<open>1e-6\<close> of zero.
\<close>

definition bone_rot_spine :: "rat \<Rightarrow> rat \<Rightarrow> rat \<Rightarrow> rat" where
  "bone_rot_spine angle_b angle_p vertical_tol =
     (let rel_ccw = angle_b - angle_p;
          rot_spine = normalize_deg (- rel_ccw)
      in if \<not> is_vertical_rel_deg rel_ccw vertical_tol then - rot_spine else rot_spine)"

definition bone_rotation_field :: "rat \<Rightarrow> rat \<Rightarrow> rat \<Rightarrow> rat option" where
  "bone_rotation_field angle_b angle_p vertical_tol =
     (let rot_spine = bone_rot_spine angle_b angle_p vertical_tol
      in if \<bar>rot_spine\<bar> > 1 / 10 ^ 6 then Some (py_round rot_spine 4) else None)"

text \<open>
  The rotation in the words of the specification: the relative angle
  \<open>this.angle - parent.angle\<close> normalised to \<open>(-180, 180]\<close>, its sign flipped when the
  relative angle is further than the tolerance from 90 degrees.
\<close>

definition claimed_rot_spine :: "rat \<Rightarrow> rat \<Rightarrow> rat \<Rightarrow> rat" where
  "claimed_rot_spine angle_b angle_p vertical_tol =
     (let rel_ccw = angle_b - angle_p in
      if \<bar>\<bar>normalize_deg rel_ccw\<bar> - 90\<bar> > vertical_tol
      then - normalize_deg rel_ccw else normalize_deg rel_ccw)"

section \<open>SPINE\_Output\_animation\<close>

text \<open>
  What the curve codec reads of the host: a keyframe point with its \<open>co\<close>, its
  interpolation mode and its two handles; an F-curve with its data path, array index,
  keyframe points and \<open>evaluate\<close> (the host's evaluation of the curve at a frame, a
  parameter of the model); an action with its name and F-curves.
\<close>

record keyframe =
  co :: "rat \<times> rat"
  interpolation :: string
  handle_left :: "rat \<times> rat"
  handle_right :: "rat \<times> rat"

record fcurve =
  data_path :: string
  array_index :: int
  keyframe_points :: "keyframe list"
  evaluate :: "int \<Rightarrow> rat"

record action =
  a_name :: string
  a_fcurves :: "fcurve list"

text \<open>
  A keyframe record of the output: \<open>time\<close>, the sampled values under the key \<open>_vals\<close>
  until \<open>build_animations\<close> pops them, the optional \<open>curve\<close> (the string \<open>stepped\<close> or
  an array), and the fields \<open>x\<close>, \<open>y\<close> and \<open>value\<close> that \<open>build_animations\<close> adds.
\<close>

datatype curve = Stepped | CurveArray "rat list"

record key_rec =
  k_time :: rat
  k_vals :: "rat list option"
  k_curve :: "curve option"
  k_x :: "rat option"
  k_y :: "rat option"
  k_value :: "rat option"

definition scene_seconds :: "rat \<Rightarrow> int \<Rightarrow> rat" where
  "scene_seconds frame fps = (if fps > 0 then frame / of_int fps else frame)"

text \<open>\<open>{int(round(k.co.x)): k for k in fc.keyframe_points}\<close>: a later keyframe overwrites.\<close>

definition knot_map_by_frame :: "fcurve \<Rightarrow> (int \<rightharpoonup> keyframe)" where
  "knot_map_by_frame fc =
     foldl (\<lambda>m k. m(round_half_even (fst (co k)) \<mapsto> k)) Map.empty (keyframe_points fc)"

definition handles_to_curve_abs_seconds ::
  "keyframe option \<Rightarrow> keyframe option \<Rightarrow> int \<Rightarrow> (rat \<Rightarrow> rat) option \<Rightarrow> rat list option" where
  "handles_to_curve_abs_seconds k_i k_j fps value_xform =
     (case (k_i, k_j) of
        (Some ki, Some kj) \<Rightarrow>
          if interpolation ki \<noteq> ''BEZIER'' \<or> interpolation kj \<noteq> ''BEZIER'' then None
          else
            let (ti_f, vi) = co ki;
                (tj_f, vj) = co kj;
                (hi_t_f, hi_v) = handle_right ki;
                (hj_t_f, hj_v) = handle_left kj
            in
            if \<bar>tj_f - ti_f\<bar> \<le> 1 / 10 ^ 12 then None
            else
              let vx = (\<lambda>v. case value_xform of Some xf \<Rightarrow> xf v | None \<Rightarrow> v);
                  cx1 = scene_seconds hi_t_f fps;
                  cy1 = vx hi_v;
                  cx2 = scene_seconds hj_t_f fps;
                  cy2 = vx hj_v
              in
              if \<bar>vj - vi\<bar> \<le> 1 / 10 ^ 12 then None
              else Some [py_round cx1 6, py_round cy1 6, py_round cx2 6, py_round cy2 6]
      | _ \<Rightarrow> None)"

subsection \<open>\<open>_emit_channel_timelines\<close>\<close>

text \<open>
  \<open>value_xform_per_channel[i] if value_xform_per_channel else None\<close>: the empty list
  gives \<open>None\<close>, a list too short raises IndexError. \<open>channel_xform\<close> is the transform
  the sampling applies to channel \<open>ch\<close>, the identity when the list does not reach it.
\<close>

definition xform_arg :: "(rat \<Rightarrow> rat) list \<Rightarrow> nat \<Rightarrow> exn + (rat \<Rightarrow> rat) option" where
  "xform_arg value_xform_per_channel i =
     (if value_xform_per_channel = [] then Inr None
      else if i < length value_xform_per_channel then Inr (Some (value_xform_per_channel ! i))
      else Inl IndexError)"

definition channel_xform :: "(rat \<Rightarrow> rat) list \<Rightarrow> nat \<Rightarrow> rat \<Rightarrow> rat" where
  "channel_xform value_xform_per_channel ch =
     (if value_xform_per_channel \<noteq> [] \<and> ch < length value_xform_per_channel
      then value_xform_per_channel ! ch else (\<lambda>x. x))"

text \<open>The curve tag of the segment from frame \<open>f\<close> to its successor \<open>nxt\<close>.\<close>

definition segment_curve ::
  "fcurve list \<Rightarrow> (int \<rightharpoonup> keyframe) list \<Rightarrow> int \<Rightarrow> (rat \<Rightarrow> rat) list \<Rightarrow> int \<Rightarrow> int
     \<Rightarrow> exn + curve option" where
  "segment_curve fcurves knotmaps fps value_xform_per_channel f nxt =
     (let k_i_ref = (knotmaps ! 0) f;
          k_j_ref = (knotmaps ! 0) nxt
      in
      if (case k_i_ref of Some k \<Rightarrow> interpolation k = ''CONSTANT'' | None \<Rightarrow> False)
      then Inr (Some Stepped)
      else if length fcurves = 1 then
        (case xform_arg value_xform_per_channel 0 of
           Inl e \<Rightarrow> Inl e
         | Inr xf \<Rightarrow>
             (case handles_to_curve_abs_seconds k_i_ref k_j_ref fps xf of
                Some c \<Rightarrow> Inr (Some (CurveArray c))
              | None \<Rightarrow> Inr None))
      else
        let k_i_x = (knotmaps ! 0) f; k_j_x = (knotmaps ! 0) nxt;
            k_i_y = (knotmaps ! 1) f; k_j_y = (knotmaps ! 1) nxt
        in
        case xform_arg value_xform_per_channel 0 of
          Inl e \<Rightarrow> Inl e
        | Inr xf0 \<Rightarrow>
            let cx = handles_to_curve_abs_seconds k_i_x k_j_x fps xf0 in
            (case xform_arg value_xform_per_channel 1 of
               Inl e \<Rightarrow> Inl e
             | Inr xf1 \<Rightarrow>
                 let cy = handles_to_curve_abs_seconds k_i_y k_j_y fps xf1 in
                 (case (cx, cy) of
                    (Some a, Some b) \<Rightarrow> Inr (Some (CurveArray (a @ b)))
                  | _ \<Rightarrow> Inr None)))"

text \<open>The record of one pass of \<open>for idx, f in enumerate(frames)\<close>.\<close>

definition emit_record ::
  "fcurve list \<Rightarrow> (int \<rightharpoonup> keyframe) list \<Rightarrow> int \<Rightarrow> (int \<Rightarrow> rat) \<Rightarrow> (rat \<Rightarrow> rat) list
     \<Rightarrow> int list \<Rightarrow> nat \<Rightarrow> exn + key_rec" where
  "emit_record fcurves knotmaps fps to_seconds value_xform_per_channel frames idx =
     (let f = frames ! idx;
          t_sec = to_seconds f;
          vals = map (\<lambda>(ch, fc). channel_xform value_xform_per_channel ch (evaluate fc f))
                   (enumerate 0 fcurves);
          rec = \<lparr>k_time = py_round t_sec 6, k_vals = Some vals, k_curve = None,
                 k_x = None, k_y = None, k_value = None\<rparr>
      in
      if idx < length frames - 1 then
        (case segment_curve fcurves knotmaps fps value_xform_per_channel f (frames ! (idx + 1)) of
           Inl e \<Rightarrow> Inl e
         | Inr c \<Rightarrow> Inr (rec\<lparr>k_curve := c\<rparr>))
      else Inr rec)"

definition is_curve_array :: "curve option \<Rightarrow> bool" where
  "is_curve_array c = (case c of Some (CurveArray a) \<Rightarrow> True | _ \<Rightarrow> False)"

fun emit_loop ::
  "(nat \<Rightarrow> exn + key_rec) \<Rightarrow> nat list \<Rightarrow> key_rec list \<Rightarrow> bool \<Rightarrow> exn + (key_rec list \<times> bool)" where
  "emit_loop body [] keys stepped_only = Inr (keys, stepped_only)"
| "emit_loop body (idx # rest) keys stepped_only =
     (case body idx of
        Inl e \<Rightarrow> Inl e
      | Inr rec \<Rightarrow>
          emit_loop body rest (keys @ [rec])
            (if is_curve_array (k_curve rec) then False else stepped_only))"

definition key_frames :: "fcurve list \<Rightarrow> int list" where
  "key_frames fcurves =
     sort (remdups (concat (map (\<lambda>fc. map (\<lambda>kp. round_half_even (fst (co kp)))
                                        (keyframe_points fc)) fcurves)))"

text \<open>\<open>fps\<close> is \<open>bpy.context.scene.render.fps\<close>, read from the host.\<close>

definition emit_channel_timelines ::
  "int \<Rightarrow> fcurve list \<Rightarrow> (int \<Rightarrow> rat) \<Rightarrow> (rat \<Rightarrow> rat) list \<Rightarrow> exn + (key_rec list \<times> bool)" where
  "emit_channel_timelines fps fcurves to_seconds value_xform_per_channel =
     (if fcurves = [] then Inr ([], False)
      else
        let frames = key_frames fcurves in
        if frames = [] then Inr ([], False)
        else
          let knotmaps = map knot_map_by_frame fcurves
          in emit_loop
               (emit_record fcurves knotmaps fps to_seconds value_xform_per_channel frames)
               [0..<length frames] [] True)"

subsection \<open>\<open>build_animations\<close>\<close>

definition startswith :: "string \<Rightarrow> string \<Rightarrow> bool" where
  "startswith s p = (take (length p) s = p)"

definition fcurves_for_path :: "action \<Rightarrow> string \<Rightarrow> int list option \<Rightarrow> fcurve list" where
  "fcurves_for_path act data_path_prefix index_whitelist =
     filter (\<lambda>fc. startswith (data_path fc) data_path_prefix
                 \<and> (case index_whitelist of
                       Some wl \<Rightarrow> array_index fc \<in> set wl
                     | None \<Rightarrow> True))
       (a_fcurves act)"

definition bone_path :: "string \<Rightarrow> string \<Rightarrow> string" where
  "bone_path bone_name prop =
     ''pose.bones['' @ [CHR 0x22] @ bone_name @ [CHR 0x22] @ ''].'' @ prop"

text \<open>\<open>{fc.array_index: fc for fc in ...}\<close> and the list \<open>pair\<close> built from it.\<close>

definition by_index :: "fcurve list \<Rightarrow> (int \<rightharpoonup> fcurve)" where
  "by_index fcs = foldl (\<lambda>m fc. m(array_index fc \<mapsto> fc)) Map.empty fcs"

definition channel_pair :: "(int \<rightharpoonup> fcurve) \<Rightarrow> int \<Rightarrow> int \<Rightarrow> fcurve list" where
  "channel_pair by_idx ix iy =
     (case by_idx ix of Some fx \<Rightarrow> [fx] | None \<Rightarrow> [])
     @ (case by_idx iy of Some fy \<Rightarrow> [fy] | None \<Rightarrow> [])"

text \<open>
  The loops over the keys: \<open>x, y = k.pop("_vals")\<close> and \<open>(angle,) = k.pop("_vals")\<close>
  raise ValueError on a list of another length.
\<close>

fun set_xy :: "key_rec list \<Rightarrow> exn + key_rec list" where
  "set_xy [] = Inr []"
| "set_xy (k # ks) =
     (case k_vals k of
        Some [x, y] \<Rightarrow>
          (case set_xy ks of
             Inl e \<Rightarrow> Inl e
           | Inr ks' \<Rightarrow> Inr (k\<lparr>k_vals := None, k_x := Some x, k_y := Some y\<rparr> # ks'))
      | Some _ \<Rightarrow> Inl ValueError
      | None \<Rightarrow> Inl KeyError)"

fun set_angle :: "key_rec list \<Rightarrow> bool \<Rightarrow> exn + (key_rec list \<times> bool)" where
  "set_angle [] wrote_any = Inr ([], wrote_any)"
| "set_angle (k # ks) wrote_any =
     (case k_vals k of
        Some [angle] \<Rightarrow>
          if \<bar>angle\<bar> > 1 / 10 ^ 9 then
            (case set_angle ks True of
               Inl e \<Rightarrow> Inl e
             | Inr (ks', w) \<Rightarrow> Inr (k\<lparr>k_vals := None, k_value := Some angle\<rparr> # ks', w))
          else
            (case set_angle ks wrote_any of
               Inl e \<Rightarrow> Inl e
             | Inr (ks', w) \<Rightarrow> Inr (k\<lparr>k_vals := None\<rparr> # ks', w))
      | Some _ \<Rightarrow> Inl ValueError
      | None \<Rightarrow> Inl KeyError)"

text \<open>
  The entry of \<open>bones_block\<close> for one bone: each timeline is \<open>None\<close> when the code does
  not set it. The constants are those of \<open>AXIS_MAP\<close>: location indices 1 and 0, Euler
  index 2, scale indices 0 and 2. \<open>degrees\<close> is \<open>math.degrees\<close>, a parameter.
\<close>

record bone_timelines =
  translate :: "key_rec list option"
  rotate :: "key_rec list option"
  scale :: "key_rec list option"

definition translate_timeline ::
  "action \<Rightarrow> int \<Rightarrow> rat \<Rightarrow> string \<Rightarrow> exn + key_rec list option" where
  "translate_timeline act fps SCALE bname =
     (let to_seconds = (\<lambda>f. scene_seconds (of_int f) fps);
          loc_path = bone_path bname ''location'';
          loc_fc = fcurves_for_path act loc_path (Some [0, 1, 2]);
          ix = 1; iy = 0;
          by_idx = by_index loc_fc;
          pair = channel_pair by_idx ix iy
      in
      if length pair = 2 then
        let vx = (\<lambda>v. py_round (v * SCALE) 4);
            vy = (\<lambda>v. py_round (v * SCALE) 4);
            pair = sort_key (\<lambda>fc. if array_index fc = ix then (0::nat) else 1) pair
        in
        case emit_channel_timelines fps pair to_seconds [vx, vy] of
          Inl e \<Rightarrow> Inl e
        | Inr (keys, _) \<Rightarrow>
            if keys \<noteq> [] then
              (case set_xy keys of Inl e \<Rightarrow> Inl e | Inr keys' \<Rightarrow> Inr (Some keys'))
            else Inr None
      else Inr None)"

definition rotate_timeline ::
  "action \<Rightarrow> int \<Rightarrow> (rat \<Rightarrow> rat) \<Rightarrow> string \<Rightarrow> exn + key_rec list option" where
  "rotate_timeline act fps degrees bname =
     (let to_seconds = (\<lambda>f. scene_seconds (of_int f) fps);
          rot_idx = 2;
          rot_path = bone_path bname ''rotation_euler'';
          rot_fc = fcurves_for_path act rot_path (Some [rot_idx])
      in
      if rot_fc \<noteq> [] then
        let rxf = (\<lambda>v. py_round (degrees v) 4) in
        case emit_channel_timelines fps rot_fc to_seconds [rxf] of
          Inl e \<Rightarrow> Inl e
        | Inr (keys, _) \<Rightarrow>
            if keys \<noteq> [] then
              (case set_angle keys False of
                 Inl e \<Rightarrow> Inl e
               | Inr (keys', wrote_any) \<Rightarrow> if wrote_any then Inr (Some keys') else Inr None)
            else Inr None
      else Inr None)"

definition scale_timeline :: "action \<Rightarrow> int \<Rightarrow> string \<Rightarrow> exn + key_rec list option" where
  "scale_timeline act fps bname =
     (let to_seconds = (\<lambda>f. scene_seconds (of_int f) fps);
          scl_path = bone_path bname ''scale'';
          scl_fc = fcurves_for_path act scl_path (Some [0, 1, 2]);
          sx_i = 0; sy_i = 2;
          by_idx_s = by_index scl_fc;
          spair = channel_pair by_idx_s sx_i sy_i
      in
      if length spair = 2 then
        let spair = sort_key (\<lambda>fc. if array_index fc = sx_i then (0::nat) else 1) spair;
            idf = (\<lambda>v. py_round v 6)
        in
        case emit_channel_timelines fps spair to_seconds [idf, idf] of
          Inl e \<Rightarrow> Inl e
        | Inr (keys, _) \<Rightarrow>
            if keys \<noteq> [] then
              (case set_xy keys of Inl e \<Rightarrow> Inl e | Inr keys' \<Rightarrow> Inr (Some keys'))
            else Inr None
      else Inr None)"

definition bone_block ::
  "action \<Rightarrow> int \<Rightarrow> rat \<Rightarrow> (rat \<Rightarrow> rat) \<Rightarrow> string \<Rightarrow> exn + bone_timelines" where
  "bone_block act fps SCALE degrees bname =
     (case translate_timeline act fps SCALE bname of
        Inl e \<Rightarrow> Inl e
      | Inr t \<Rightarrow>
          (case rotate_timeline act fps degrees bname of
             Inl e \<Rightarrow> Inl e
           | Inr r \<Rightarrow>
               (case scale_timeline act fps bname of
                  Inl e \<Rightarrow> Inl e
                | Inr s \<Rightarrow> Inr \<lparr>translate = t, rotate = r, scale = s\<rparr>)))"

text \<open>
  The loop over \<open>arm.data.bones\<close> (their names): \<open>bones_block\<close> gets an entry for a bone
  as soon as one of its timelines is set. The result is \<open>None\<close> for the empty dictionary
  returned without an action, else the animation name with its \<open>bones\<close> block.
\<close>

fun bones_loop ::
  "action \<Rightarrow> int \<Rightarrow> rat \<Rightarrow> (rat \<Rightarrow> rat) \<Rightarrow> string list \<Rightarrow> (string \<times> bone_timelines) list
     \<Rightarrow> exn + (string \<times> bone_timelines) list" where
  "bones_loop act fps SCALE degrees [] bones_block = Inr bones_block"
| "bones_loop act fps SCALE degrees (bname # rest) bones_block =
     (case bone_block act fps SCALE degrees bname of
        Inl e \<Rightarrow> Inl e
      | Inr blk \<Rightarrow>
          bones_loop act fps SCALE degrees rest
            (if translate blk \<noteq> None \<or> rotate blk \<noteq> None \<or> scale blk \<noteq> None
             then AList.update bname blk bones_block else bones_block))"

definition build_animations ::
  "action option \<Rightarrow> int \<Rightarrow> rat \<Rightarrow> (rat \<Rightarrow> rat) \<Rightarrow> string list
     \<Rightarrow> exn + (string \<times> (string \<times> bone_timelines) list) option" where
  "build_animations act_opt fps SCALE degrees bone_names =
     (case act_opt of
        None \<Rightarrow> Inr None
      | Some act \<Rightarrow>
          let anim_name = (if a_name act \<noteq> [] then a_name act else ''Action'') in
          case bones_loop act fps SCALE degrees bone_names [] of
            Inl e \<Rightarrow> Inl e
          | Inr bones_block \<Rightarrow> Inr (Some (anim_name, bones_block)))"

text \<open>
  The conditions of the specification for a curve array on a segment, on its two endpoint
  keyframes: both Bezier, the raw values more than \<open>1e-12\<close> apart, the raw times more
  than \<open>1e-12\<close> frames apart; and the four numbers of one channel.
\<close>

definition bezier_segment :: "keyframe \<Rightarrow> keyframe \<Rightarrow> bool" where
  "bezier_segment ki kj \<longleftrightarrow>
     interpolation ki = ''BEZIER'' \<and> interpolation kj = ''BEZIER''
     \<and> \<bar>snd (co kj) - snd (co ki)\<bar> > 1 / 10 ^ 12
     \<and> \<bar>fst (co kj) - fst (co ki)\<bar> > 1 / 10 ^ 12"

definition curve4 :: "keyframe \<Rightarrow> keyframe \<Rightarrow> int \<Rightarrow> (rat \<Rightarrow> rat) \<Rightarrow> rat list" where
  "curve4 ki kj fps xf =
     [py_round (scene_seconds (fst (handle_right ki)) fps) 6,
      py_round (xf (snd (handle_right ki))) 6,
      py_round (scene_seconds (fst (handle_left kj)) fps) 6,
      py_round (xf (snd (handle_left kj))) 6]"

text \<open>A bone has an F-curve on a property with a given array index.\<close>

definition has_channel :: "action \<Rightarrow> string \<Rightarrow> string \<Rightarrow> int \<Rightarrow> bool" where
  "has_channel act bname prop idx \<longleftrightarrow>
     (\<exists>fc \<in> set (a_fcurves act).
        startswith (data_path fc) (bone_path bname prop) \<and> array_index fc = idx)"

text \<open>
  A small action for concrete evaluations: the bone \<open>arm\<close> has a rotation curve keyed at
  frames 0 (value 0) and 24 (value 1), a location curve on index 0 and one on index 1;
  \<open>example_degrees\<close> stands for \<open>math.degrees\<close>.
\<close>

definition example_key :: "rat \<Rightarrow> rat \<Rightarrow> string \<Rightarrow> keyframe" where
  "example_key t v i =
     \<lparr>co = (t, v), interpolation = i, handle_left = (t - 8, v), handle_right = (t + 8, v)\<rparr>"

definition example_rot_curve :: fcurve where
  "example_rot_curve =
     \<lparr>data_path = bone_path ''arm'' ''rotation_euler'', array_index = 2,
      keyframe_points = [example_key 0 0 ''BEZIER'', example_key 24 1 ''BEZIER''],
      evaluate = (\<lambda>f. if f = 0 then 0 else 1)\<rparr>"

definition example_action :: action where
  "example_action =
     \<lparr>a_name = ''Walk'',
      a_fcurves =
        [example_rot_curve,
         \<lparr>data_path = bone_path ''arm'' ''location'', array_index = 0,
          keyframe_points = [example_key 0 0 ''BEZIER'', example_key 24 1 ''BEZIER''],
          evaluate = (\<lambda>f. if f = 0 then 0 else 1)\<rparr>,
         \<lparr>data_path = bone_path ''arm'' ''location'', array_index = 1,
          keyframe_points = [example_key 0 0 ''CONSTANT'', example_key 12 2 ''BEZIER'',
                             example_key 24 1 ''BEZIER''],
          evaluate = (\<lambda>f. if f = 0 then 0 else 1)\<rparr>]\<rparr>"

definition example_degrees :: "rat \<Rightarrow> rat" where
  "example_degrees v = v * (5729578 / 100000)"

section \<open>Convex polygons and the chain scan on points\<close>












text \<open>The point reflection that turns the scan of the upper chain into one of a lower chain.\<close>

definition negp :: "point \<Rightarrow> point" where
  "negp p = (- fst p, - snd p)"

section \<open>Edge stream validity\<close>

lemma sanitize_loop_acc:
  "sanitize_loop xs seen out = out @ sanitize_loop xs seen []"
proof (induction xs arbitrary: seen out rule: pairs_of.induct)
  case (1 a b rest)
  show ?case
    using 1[of seen out] 1[of "insert (if a < b then (a, b) else (b, a)) seen" "out @ [fst (if a < b then (a, b) else (b, a)), snd (if a < b then (a, b) else (b, a))]"]
     1[of "insert (if a < b then (a, b) else (b, a)) seen" "[fst (if a < b then (a, b) else (b, a)), snd (if a < b then (a, b) else (b, a))]"]
    by (simp add: Let_def)
qed simp_all

lemma sanitize_loop_props:
  "(\<forall>x \<in> set (sanitize_loop xs seen []). x \<in> set xs)
   \<and> even (length (sanitize_loop xs seen []))
   \<and> (\<forall>(a, b) \<in> set (pairs_of (sanitize_loop xs seen [])). a < b)"
proof (induction xs arbitrary: seen rule: pairs_of.induct)
  case (1 a b rest)
  show ?case
    using 1[of seen] 1[of "insert (if a < b then (a, b) else (b, a)) seen"]
    by (auto simp: Let_def sanitize_loop_acc[of _ _ "[x, y]" for x y])
qed simp_all

lemma encode_loop_acc:
  "encode_loop xs m out = out @ encode_loop xs m []"
proof (induction xs arbitrary: out rule: pairs_of.induct)
  case (1 a b rest)
  show ?case
    using 1[of out] 1[of "out @ [a * 2, b * 2]"] 1[of "[a * 2, b * 2]"]
    by (simp add: Let_def)
qed simp_all

lemma encode_loop_props:
  "(\<forall>x \<in> set (encode_loop xs m []). even x \<and> 0 \<le> x \<and> x \<le> m)
   \<and> even (length (encode_loop xs m []))
   \<and> (\<forall>(a, b) \<in> set (pairs_of (encode_loop xs m [])). a \<noteq> b)"
proof (induction xs rule: pairs_of.induct)
  case (1 a b rest)
  show ?case
    using 1
    by (auto simp: Let_def encode_loop_acc[of _ _ "[x, y]" for x y])
qed simp_all

lemma validate_loop_ok:
  "\<forall>x \<in> set e. even x \<and> 0 \<le> x \<and> x \<le> m \<Longrightarrow> validate_loop nm m e = Inr ()"
  by (induction e) (auto simp: and_one_eq)


text \<open>
  Claim C2. Whatever flat list of NEW-index pairs \<open>encode_spine_edges\<close> is given and
  for every vertex count \<open>v \<ge> 1\<close>, every value of the returned array is even and lies in
  \<open>[0, 2v)\<close>, the array has even length and the two values of each consecutive pair
  differ. Hence \<open>validate_attachment_edges\<close> raises nothing on an attachment whose
  \<open>edges\<close> field is that array and whose \<open>len(uvs) // 2\<close> is \<open>v\<close>.
\<close>

theorem encode_spine_edges_valid:
  assumes "1 \<le> v"
  shows "(\<forall>x \<in> set (encode_spine_edges es v). even x \<and> 0 \<le> x \<and> x < 2 * v)
       \<and> even (length (encode_spine_edges es v))
       \<and> (\<forall>(a, b) \<in> set (pairs_of (encode_spine_edges es v)). a \<noteq> b)
       \<and> (\<forall>att. att_edges att = Some (encode_spine_edges es v)
                  \<and> int (length (att_uvs att) div 2) = v
              \<longrightarrow> validate_attachment_edges att = Inr ())"
proof -
  have r: "\<forall>x \<in> set (encode_spine_edges es v). even x \<and> 0 \<le> x \<and> x \<le> v * 2 - 1"
    using encode_loop_props[of "sanitize_pairs es v" "v * 2 - 1"]
    by (auto simp: encode_spine_edges_def Let_def)
  have l: "even (length (encode_spine_edges es v))"
    using encode_loop_props[of "sanitize_pairs es v" "v * 2 - 1"]
    by (auto simp: encode_spine_edges_def Let_def)
  have p: "\<forall>(a, b) \<in> set (pairs_of (encode_spine_edges es v)). a \<noteq> b"
    using encode_loop_props[of "sanitize_pairs es v" "v * 2 - 1"]
    by (auto simp: encode_spine_edges_def Let_def)
  have val: "validate_attachment_edges att = Inr ()"
    if "att_edges att = Some (encode_spine_edges es v)"
       "int (length (att_uvs att) div 2) = v" for att
    using that assms validate_loop_ok[OF r, of "att_name att"]
    by (simp add: validate_attachment_edges_def Let_def)
  from r have r': "\<forall>x \<in> set (encode_spine_edges es v). even x \<and> 0 \<le> x \<and> x < 2 * v"
    by auto
  show ?thesis using r' l p val by blast
qed

theorem encode_spine_edges_valid_witness:
  "(1::int) \<le> 3
   \<and> encode_spine_edges [0, 1, 1, 2, 2, 0, 7, 1, 1, 1] 3 = [0, 2, 2, 4, 0, 4]
   \<and> validate_attachment_edges
        \<lparr>att_name = ''quad'', att_uvs = [0, 0, 1, 0, 1, 1], att_triangles = [0, 1, 2],
         att_edges = Some (encode_spine_edges [0, 1, 1, 2, 2, 0, 7, 1, 1, 1] 3)\<rparr> = Inr ()"
proof -
  have h: "(1::int) \<le> 3" by simp
  have e: "encode_spine_edges [0, 1, 1, 2, 2, 0, 7, 1, 1, 1] 3 = [0, 2, 2, 4, 0, 4]"
    by (simp add: encode_spine_edges_def sanitize_pairs_def Let_def)
  show ?thesis
    using encode_spine_edges_valid[OF h, of "[0, 1, 1, 2, 2, 0, 7, 1, 1, 1]"] e h
    by simp
qed

section \<open>Boundary edges\<close>

lemma counts_inv_bump:
  assumes "counts_inv cs xs"
  shows "counts_inv (bump cs e) (xs @ [e])"
proof -
  have d: "distinct (map fst (bump cs e))"
    using assms by (simp add: counts_inv_def bump_def distinct_update)
  have m: "map_of cs e' = (if count_list xs e' = 0 then None else Some (count_list xs e'))" for e'
    using assms unfolding counts_inv_def by blast
  have "map_of (bump cs e) e'
          = (if count_list (xs @ [e]) e' = 0 then None else Some (count_list (xs @ [e]) e'))" for e'
  proof (cases "e' = e")
    case True
    have "map_of (bump cs e) e = Some (case map_of cs e of None \<Rightarrow> 1 | Some n \<Rightarrow> n + 1)"
      by (simp add: bump_def update_conv')
    then show ?thesis using m[of e] True by simp
  next
    case False
    have "map_of (bump cs e) e' = map_of cs e'"
      using False by (simp add: bump_def update_conv')
    then show ?thesis using m[of e'] False by simp
  qed
  then show ?thesis using d unfolding counts_inv_def by blast
qed

lemma counts_inv_loop:
  assumes "counts_inv cs xs" "length tris mod 3 = 0"
  shows "\<exists>cs'. edge_counts_loop tris cs = Inr cs' \<and> counts_inv cs' (xs @ map canon (tri_sides tris))"
  using assms
proof (induction tris cs arbitrary: xs rule: edge_counts_loop.induct)
  case (1 counts)
  then show ?case by simp
next
  case (2 a b c rest counts)
  have len: "length rest mod 3 = 0" using 2(3) by simp
  have inv: "counts_inv (foldl (\<lambda>cs e. bump cs (canon e)) counts [(a, b), (b, c), (c, a)])
               (xs @ [canon (a, b), canon (b, c), canon (c, a)])"
    using counts_inv_bump[OF counts_inv_bump[OF counts_inv_bump[OF 2(2)]]]
    by simp
  from 2(1)[OF inv len] show ?case by simp
qed simp_all

lemma boundary_edges_char:
  assumes "length tris mod 3 = 0"
  shows "\<exists>bs. tri_boundary_edges_from_tris tris = Inr bs \<and> distinct bs
            \<and> set bs = {e. edge_multiplicity tris e = 1}"
proof -
  have "counts_inv [] []" by (simp add: counts_inv_def)
  from counts_inv_loop[OF this assms] obtain cs where
    cs: "edge_counts_loop tris [] = Inr cs" and inv: "counts_inv cs (map canon (tri_sides tris))"
    by auto
  define bs where "bs = map fst (filter (\<lambda>(e, cnt). cnt = 1) cs)"
  have d: "distinct bs" using inv by (simp add: bs_def counts_inv_def distinct_map_filter)
  have dc: "distinct (map fst cs)" using inv by (simp add: counts_inv_def)
  have m: "map_of cs e = (if edge_multiplicity tris e = 0 then None
                          else Some (edge_multiplicity tris e))" for e
    using inv unfolding counts_inv_def edge_multiplicity_def by blast
  have "e \<in> set bs \<longleftrightarrow> (e, 1) \<in> set cs" for e
    by (force simp: bs_def)
  then have "e \<in> set bs \<longleftrightarrow> map_of cs e = Some 1" for e
    using dc by simp
  then have "e \<in> set bs \<longleftrightarrow> edge_multiplicity tris e = 1" for e
    using m[of e] by simp
  then have s: "set bs = {e. edge_multiplicity tris e = 1}"
    by blast
  show ?thesis using cs d s
    by (simp add: tri_boundary_edges_from_tris_def edge_counts_from_tris_def bs_def)
qed


lemma edge_multiplicity_canonical:
  assumes "edge_multiplicity tris e = 1"
  shows "fst e \<le> snd e"
proof -
  have "count_list (map canon (tri_sides tris)) e \<noteq> 0"
    using assms by (simp add: edge_multiplicity_def)
  then have "e \<in> set (map canon (tri_sides tris))"
    using count_notin by fastforce
  then obtain s where "e = canon s" by auto
  then show ?thesis by (simp add: canon_def)
qed

lemma add_boundary_fold:
  assumes "distinct acc"
  shows "distinct (foldl (add_boundary vc) acc bs)
       \<and> set (foldl (add_boundary vc) acc bs)
           = set acc \<union> {(if fst e < snd e then e else (snd e, fst e)) | e.
                e \<in> set bs \<and> 0 \<le> fst e \<and> fst e < vc \<and> 0 \<le> snd e \<and> snd e < vc \<and> fst e \<noteq> snd e}"
  using assms
proof (induction bs arbitrary: acc)
  case Nil
  then show ?case by simp
next
  case (Cons b bs)
  obtain x y where b: "b = (x, y)" by (cases b)
  have d: "distinct (add_boundary vc acc b)"
    using Cons.prems by (simp add: add_boundary_def set_add_def b)
  have s: "set (add_boundary vc acc b) = set acc \<union>
      (if 0 \<le> x \<and> x < vc \<and> 0 \<le> y \<and> y < vc \<and> x \<noteq> y
       then {if x < y then (x, y) else (y, x)} else {})"
    by (auto simp: add_boundary_def set_add_def b)
  show ?case
    using Cons.IH[OF d] s by (simp add: b) blast
qed

lemma length_pairs_to_flat: "length (pairs_to_flat ps) = 2 * length ps"
  by (induction ps rule: pairs_to_flat.induct) simp_all

lemma set_pairs_to_flat: "set (pairs_to_flat ps) = fst ` set ps \<union> snd ` set ps"
  by (induction ps rule: pairs_to_flat.induct) auto

lemma sanitize_loop_id:
  assumes "distinct ps" "set ps \<inter> seen = {}" "\<forall>p \<in> set ps. fst p < snd p"
  shows "sanitize_loop (pairs_to_flat ps) seen [] = pairs_to_flat ps"
  using assms
proof (induction ps arbitrary: seen)
  case Nil
  then show ?case by simp
next
  case (Cons p ps)
  obtain a b where p: "p = (a, b)" by (cases p)
  have ab: "a < b" using Cons.prems(3) by (simp add: p)
  have notin: "(a, b) \<notin> seen" using Cons.prems(2) by (simp add: p)
  have ih: "sanitize_loop (pairs_to_flat ps) (insert (a, b) seen) [] = pairs_to_flat ps"
    using Cons.prems by (intro Cons.IH) (auto simp: p)
  show ?case
    using ab notin ih
    by (simp add: p Let_def sanitize_loop_acc[of _ _ "[a, b]"])
qed

lemma sanitize_pairs_id:
  assumes "distinct ps" "\<forall>p \<in> set ps. 0 \<le> fst p \<and> fst p < snd p \<and> snd p < vc"
  shows "sanitize_pairs (pairs_to_flat ps) vc = pairs_to_flat ps"
proof -
  have "\<forall>x \<in> set (pairs_to_flat ps). 0 \<le> x \<and> x < max 0 vc"
    using assms(2) by (fastforce simp: set_pairs_to_flat)
  then have f: "filter (\<lambda>xi. 0 \<le> xi \<and> xi < max 0 vc) (pairs_to_flat ps) = pairs_to_flat ps"
    by (simp add: filter_id_conv)
  have l: "sanitize_loop (pairs_to_flat ps) {} [] = pairs_to_flat ps"
    using assms by (intro sanitize_loop_id) auto
  show ?thesis
    unfolding sanitize_pairs_def Let_def f using l by (simp add: length_pairs_to_flat)
qed

lemma boundary_mode_edges_general:
  assumes "length triangles mod 3 = 0"
  shows "build_edges_from_tris_and_manual triangles new_to_src (Some region_xy) me_edges
           ''boundary'' use_seams use_sharp True
         = Inr (pairs_to_flat (sorted_list_of_set
                  {(u, v). 0 \<le> u \<and> u < v \<and> v < int (length region_xy)
                           \<and> edge_multiplicity triangles (u, v) = 1}))"
proof -
  define vc where "vc = int (length region_xy)"
  define B where "B = {(u, v). 0 \<le> u \<and> u < v \<and> v < vc \<and> edge_multiplicity triangles (u, v) = 1}"
  from boundary_edges_char[OF assms] obtain bs where
    bs: "tri_boundary_edges_from_tris triangles = Inr bs" and d: "distinct bs"
    and sbs: "set bs = {e. edge_multiplicity triangles e = 1}" by auto
  define R where "R = foldl (add_boundary vc) [] bs"
  have dR: "distinct R" and sR0: "set R = {(if fst e < snd e then e else (snd e, fst e)) | e.
                e \<in> set bs \<and> 0 \<le> fst e \<and> fst e < vc \<and> 0 \<le> snd e \<and> snd e < vc \<and> fst e \<noteq> snd e}"
    using add_boundary_fold[of "[]" vc bs] by (simp_all add: R_def)
  have sR: "set R = B"
  proof (rule set_eqI)
    fix p :: "int \<times> int"
    obtain u v where p: "p = (u, v)" by (cases p)
    show "p \<in> set R \<longleftrightarrow> p \<in> B"
    proof
      assume "p \<in> set R"
      then obtain e where e: "e \<in> set bs" "0 \<le> fst e" "fst e < vc" "0 \<le> snd e" "snd e < vc"
          "fst e \<noteq> snd e" "p = (if fst e < snd e then e else (snd e, fst e))"
        unfolding sR0 by blast
      have "fst e \<le> snd e" using e(1) sbs edge_multiplicity_canonical by blast
      then have "fst e < snd e" using e(6) by simp
      then have "p = e" using e(7) by simp
      then show "p \<in> B" using e sbs \<open>fst e < snd e\<close> by (auto simp: B_def p)
    next
      assume "p \<in> B"
      then have "p \<in> set bs" "0 \<le> fst p" "fst p < vc" "0 \<le> snd p" "snd p < vc" "fst p < snd p"
        using sbs by (auto simp: B_def p)
      then have "p = (if fst p < snd p then p else (snd p, fst p)) \<and>
                 p \<in> set bs \<and> 0 \<le> fst p \<and> fst p < vc \<and> 0 \<le> snd p \<and> snd p < vc \<and> fst p \<noteq> snd p"
        by simp
      then show "p \<in> set R" unfolding sR0 by blast
    qed
  qed
  have srt: "sort R = sorted_list_of_set B"
    using dR sR by (metis sorted_list_of_set_sort_remdups distinct_remdups_id)
  have props: "distinct (sort R)" "\<forall>p \<in> set (sort R). 0 \<le> fst p \<and> fst p < snd p \<and> snd p < vc"
    using dR sR by (auto simp: B_def)
  have san: "sanitize_pairs (pairs_to_flat (sort R)) vc = pairs_to_flat (sort R)"
    using sanitize_pairs_id[OF props] .
  show ?thesis
  proof (cases "triangles = []")
    case True
    have "B = {}" by (auto simp: B_def True edge_multiplicity_def)
    then have e: "sorted_list_of_set B = []" by simp
    have "build_edges_from_tris_and_manual triangles new_to_src (Some region_xy) me_edges
           ''boundary'' use_seams use_sharp True = Inr (sanitize_pairs (pairs_to_flat (sort [])) vc)"
      using True
      by (simp add: build_edges_from_tris_and_manual_def vc_def Let_def split: option.splits)
    then show ?thesis
      using e by (simp add: B_def vc_def sanitize_pairs_def)
  next
    case False
    have "build_edges_from_tris_and_manual triangles new_to_src (Some region_xy) me_edges
           ''boundary'' use_seams use_sharp True = Inr (sanitize_pairs (pairs_to_flat (sort R)) vc)"
      using False bs
      by (simp add: build_edges_from_tris_and_manual_def vc_def Let_def R_def split: option.splits)
    then show ?thesis
      using san srt by (simp add: B_def vc_def)
  qed
qed

lemma boundary_suppressed:
  "build_edges_from_tris_and_manual triangles new_to_src region_xy me_edges
     ''boundary'' use_seams use_sharp False = Inr []"
  by (simp add: build_edges_from_tris_and_manual_def sanitize_pairs_def Let_def
      split: option.splits)

text \<open>
  Claim C9, as the code has it. In mode \<open>boundary\<close>, with \<open>include_boundary\<close> true (its
  default) and a triangle list of whole triangles, \<open>build_edges_from_tris_and_manual\<close>
  returns the flat list of exactly the undirected triangle edges of multiplicity 1, each
  as \<open>a < b\<close> with both ends in \<open>[0, vertex_count)\<close>, once each, in sorted order. For a
  quad of four vertices cut into the triangles \<open>0,1,2\<close> and \<open>0,2,3\<close> the result is the
  four perimeter edges; the diagonal \<open>(0,2)\<close> has multiplicity 2 and is not among them.
  With \<open>include_boundary\<close> false the same mode returns no edge at all.
\<close>

theorem boundary_mode_edges:
  assumes "length triangles mod 3 = 0"
  shows "build_edges_from_tris_and_manual triangles new_to_src (Some region_xy) me_edges
           ''boundary'' use_seams use_sharp True
         = Inr (pairs_to_flat (sorted_list_of_set
                  {(u, v). 0 \<le> u \<and> u < v \<and> v < int (length region_xy)
                           \<and> edge_multiplicity triangles (u, v) = 1}))
       \<and> build_edges_from_tris_and_manual [0, 1, 2, 0, 2, 3] new_to_src (Some [p0, p1, p2, p3])
           me_edges ''boundary'' use_seams use_sharp True = Inr [0, 1, 0, 3, 1, 2, 2, 3]
       \<and> edge_multiplicity [0, 1, 2, 0, 2, 3] (0, 2) = 2
       \<and> build_edges_from_tris_and_manual triangles new_to_src (Some region_xy) me_edges
           ''boundary'' use_seams use_sharp False = Inr []"
proof -
  have quad: "build_edges_from_tris_and_manual [0, 1, 2, 0, 2, 3] new_to_src
           (Some [p0, p1, p2, p3]) me_edges ''boundary'' use_seams use_sharp True
         = Inr [0, 1, 0, 3, 1, 2, 2, 3]"
    by (simp add: build_edges_from_tris_and_manual_def tri_boundary_edges_from_tris_def
        edge_counts_from_tris_def bump_def canon_def add_boundary_def set_add_def
        sanitize_pairs_def Let_def split: option.splits)
  have diag: "edge_multiplicity [0, 1, 2, 0, 2, 3] (0, 2) = 2"
    by (simp add: edge_multiplicity_def canon_def)
  show ?thesis
    using boundary_mode_edges_general[OF assms] quad diag boundary_suppressed by blast
qed

theorem boundary_mode_edges_witness:
  "length [0, 1, 2, 0, 2, 3 :: int] mod 3 = 0
   \<and> pairs_to_flat (sorted_list_of_set
        {(u, v). 0 \<le> u \<and> u < v \<and> v < int (length [(0, 0), (1, 0), (1, 1), (0, 1) :: point])
                 \<and> edge_multiplicity [0, 1, 2, 0, 2, 3] (u, v) = 1})
     = [0, 1, 0, 3, 1, 2, 2, 3]"
proof -
  have h: "length [0, 1, 2, 0, 2, 3 :: int] mod 3 = 0" by simp
  note t = boundary_mode_edges[OF h, of "[] :: (int \<times> nat) list"
      "[(0, 0), (1, 0), (1, 1), (0, 1)]" None True True "(0, 0)" "(1, 0)" "(1, 1)" "(0, 1)"]
  from t have "(Inr (pairs_to_flat (sorted_list_of_set
        {(u, v). 0 \<le> u \<and> u < v \<and> v < int (length [(0, 0), (1, 0), (1, 1), (0, 1) :: point])
                 \<and> edge_multiplicity [0, 1, 2, 0, 2, 3] (u, v) = 1})) :: exn + int list)
      = Inr [0, 1, 0, 3, 1, 2, 2, 3]"
    by (elim conjE) (erule subst, assumption)
  then show ?thesis using h by blast
qed

text \<open>
  The claim as stated has no condition on \<open>include_boundary\<close>. For the quad above the
  edge \<open>(0,1)\<close> has multiplicity 1, and yet mode \<open>boundary\<close> with \<open>include_boundary\<close>
  false returns the empty list.
\<close>

theorem boundary_mode_suppressed_counterexample:
  "edge_multiplicity [0, 1, 2, 0, 2, 3] (0, 1) = 1
   \<and> build_edges_from_tris_and_manual [0, 1, 2, 0, 2, 3] ([] :: (int \<times> nat) list)
        (Some [(0, 0), (1, 0), (1, 1), (0, 1)]) None ''boundary'' True True False = Inr []
   \<and> build_edges_from_tris_and_manual [0, 1, 2, 0, 2, 3] ([] :: (int \<times> nat) list)
        (Some [(0, 0), (1, 0), (1, 1), (0, 1)]) None ''boundary'' True True True
      = Inr [0, 1, 0, 3, 1, 2, 2, 3]"
  by (simp add: build_edges_from_tris_and_manual_def tri_boundary_edges_from_tris_def
      edge_counts_from_tris_def bump_def canon_def add_boundary_def set_add_def
      sanitize_pairs_def edge_multiplicity_def Let_def split: option.splits)

section \<open>Triangle winding\<close>

lemma triples_of_append:
  "length xs mod 3 = 0 \<Longrightarrow> triples_of (xs @ ys) = triples_of xs @ triples_of ys"
  by (induction xs rule: triples_of.induct) simp_all

lemma area2_swap: "area2 A C B = - area2 A B C"
  by (simp add: area2_def algebra_simps)

lemma remap_loop_ccw:
  assumes "remap_loop xy2 o2n tris acc = Inr out" "length acc mod 3 = 0"
    "\<forall>(a, b, c) \<in> set (triples_of acc). 0 < tri_area2_xy xy2 a b c"
  shows "length out mod 3 = 0 \<and> (\<forall>(a, b, c) \<in> set (triples_of out). 0 < tri_area2_xy xy2 a b c)"
  using assms
proof (induction tris arbitrary: acc rule: triples_of.induct)
  case (1 a b c rest)
  note run0 = "1.prems"(1) and len0 = "1.prems"(2) and inv0 = "1.prems"(3)
  from run0 obtain a2 b2 c2 where
    k: "o2n a = Some a2" "o2n b = Some b2" "o2n c = Some c2"
    by (auto split: option.splits)
  define ar where "ar = tri_area2_xy xy2 a2 b2 c2"
  show ?case
  proof (cases "\<bar>ar\<bar> < 1 / 10 ^ 9")
    case True
    have "remap_loop xy2 o2n rest acc = Inr out"
      using run0 k True by (simp add: ar_def)
    from "1.IH"[OF this len0 inv0] show ?thesis .
  next
    case False
    define bc where "bc = (if ar < 0 then (c2, b2) else (b2, c2))"
    have pos: "0 < tri_area2_xy xy2 a2 (fst bc) (snd bc)"
      using False by (auto simp: bc_def ar_def tri_area2_xy_def area2_swap[of _ "xy2 ! c2"])
    have run: "remap_loop xy2 o2n rest (acc @ [a2, fst bc, snd bc]) = Inr out"
      using run0 k False by (simp add: ar_def bc_def Let_def split: if_splits)
    have l: "length (acc @ [a2, fst bc, snd bc]) mod 3 = 0"
      using len0 by (simp add: mod_Suc)
    have inv: "\<forall>(a, b, c) \<in> set (triples_of (acc @ [a2, fst bc, snd bc])).
                 0 < tri_area2_xy xy2 a b c"
      using inv0 pos by (simp add: triples_of_append[OF len0] case_prod_beta)
    from "1.IH"[OF run l inv] show ?thesis .
  qed
qed simp_all

text \<open>
  Claim C1. The claim asks for a strictly positive signed area of every returned triangle,
  those of the fan fallback included. The remap loop keeps that (\<open>remap_loop_ccw\<close>:
  degenerate triangles are dropped, clockwise ones are swapped). The fallback checks
  nothing: on a mesh whose only face is a triangle with three collinear UV corners the
  loop drops the triangle, the list is empty, three region points exist, and the fallback
  emits \<open>[0, 1, 2]\<close> again, a triangle of signed area 0.
\<close>

theorem fan_fallback_degenerate_triangle:
  "prepare_region \<lparr>me_loops = [0, 1, 2],
        me_loop_triangles = [\<lparr>lt_loops = (0, 1, 2), lt_vertices = (0, 1, 2)\<rparr>]\<rparr>
       (Some [(0, 0), (1 / 2, 0), (1, 0)]) 100 100 None 0
     = Inr \<lparr>r_region_xy = [(- 50, 0), (0, 0), (50, 0)], r_uvs = [0, 1, 1 / 2, 1, 1, 1],
            r_new_to_src = [(0, 0), (1, 1), (2, 2)], r_triangles = [0, 1, 2],
            r_hull_idx = [0, 1, 2]\<rparr>
   \<and> hull_first_reorder [(- 50, 0), (0, 0), (50, 0)] [0, 1, 1 / 2, 1, 1, 1]
       [(0 :: nat, 0 :: nat), (1, 1), (2, 2)] [0, 1, 2]
     = Inr \<lparr>r_region_xy = [(- 50, 0), (0, 0), (50, 0)], r_uvs = [0, 1, 1 / 2, 1, 1, 1],
            r_new_to_src = [(0, 0), (1, 1), (2, 2)], r_triangles = [0, 1, 2],
            r_hull_idx = [0, 1, 2]\<rparr>
   \<and> tri_area2_xy [(- 50, 0), (0, 0), (50, 0)] 0 1 2 = 0"
  by code_simp

section \<open>Deduplication of loops\<close>

lemma region_step_inv:
  assumes "region_inv st"
  shows "region_inv (region_step uv w h st (li, vi))
       \<and> fst ` set (rb_loopkey_to_new (region_step uv w h st (li, vi)))
           = insert (loop_key uv li vi) (fst ` set (rb_loopkey_to_new st))"
proof -
  obtain u v where uv: "loop_uv uv li = (u, v)" by (cases "loop_uv uv li")
  define key where "key = (vi, py_round u 6, py_round v 6)"
  have k: "loop_key uv li vi = key" by (simp add: loop_key_def uv key_def)
  show ?thesis
  proof (cases "map_of (rb_loopkey_to_new st) key = None")
    case True
    then have notin: "key \<notin> fst ` set (rb_loopkey_to_new st)"
      by (simp add: map_of_eq_None_iff)
    show ?thesis
      using assms True notin
      by (simp add: region_step_def uv key_def[symmetric] k region_inv_def Let_def)
  next
    case False
    then obtain y where y: "map_of (rb_loopkey_to_new st) key = Some y" by blast
    then have "key \<in> fst ` set (rb_loopkey_to_new st)"
      by (metis map_of_eq_None_iff option.distinct(1))
    then show ?thesis
      using assms y
      by (simp add: region_step_def uv key_def[symmetric] k Let_def insert_absorb)
  qed
qed

lemma region_fold_inv:
  assumes "region_inv st"
  shows "region_inv (foldl (region_step uv w h) st L)
       \<and> fst ` set (rb_loopkey_to_new (foldl (region_step uv w h) st L))
           = (\<lambda>(li, vi). loop_key uv li vi) ` set L \<union> fst ` set (rb_loopkey_to_new st)"
  using assms
proof (induction L arbitrary: st)
  case Nil
  then show ?case by simp
next
  case (Cons p L)
  obtain li vi where p: "p = (li, vi)" by (cases p)
  from region_step_inv[OF Cons.prems, of uv w h li vi]
  have i: "region_inv (region_step uv w h st (li, vi))"
    and s: "fst ` set (rb_loopkey_to_new (region_step uv w h st (li, vi)))
           = insert (loop_key uv li vi) (fst ` set (rb_loopkey_to_new st))" by blast+
  from Cons.IH[OF i] s show ?case by (simp add: p)
qed

lemma map_of_index_inj:
  assumes "map snd al = [0..<length al]" "map_of al k1 = Some i" "map_of al k2 = Some i"
  shows "k1 = k2"
proof -
  have d: "distinct (map snd al)" using assms(1) by simp
  have "(k1, i) \<in> set al" "(k2, i) \<in> set al" using assms(2,3) by (auto dest: map_of_SomeD)
  moreover have "inj_on snd (set al)" using d by (simp add: distinct_map)
  ultimately have "(k1, i) = (k2, i)" by (intro inj_onD[of snd "set al"]) simp_all
  then show ?thesis by simp
qed

lemma map_of_index_bound:
  assumes "map snd al = [0..<length al]" "map_of al k = Some i"
  shows "i < length al"
proof -
  have "(k, i) \<in> set al" using assms(2) by (auto dest: map_of_SomeD)
  then have "i \<in> set (map snd al)" by force
  then show ?thesis using assms(1) by simp
qed


lemma set_enumerate_0: "set (enumerate 0 xs) = (\<lambda>i. (i, xs ! i)) ` {0..<length xs}"
proof (rule set_eqI)
  fix p :: "nat \<times> 'a"
  obtain i x where p: "p = (i, x)" by (cases p)
  show "p \<in> set (enumerate 0 xs) \<longleftrightarrow> p \<in> (\<lambda>i. (i, xs ! i)) ` {0..<length xs}"
    by (auto simp: p in_set_enumerate_eq)
qed

text \<open>
  Claim C6. \<open>build_region_vertices_uvs\<close> allocates exactly one NEW index per distinct key
  (source vertex index, U rounded to 6 decimals, flipped V rounded to 6 decimals): the
  number of NEW indices is the number of distinct keys of the loops, hence at most the
  number of loops; every loop resolves to a NEW index, and two loops have the same NEW
  index if and only if they have the same key.
\<close>

theorem dedup_one_index_per_key:
  fixes me uv_layer img_w img_h
  defines "rb \<equiv> build_region_vertices_uvs me uv_layer img_w img_h"
  defines "n \<equiv> length (rb_new_to_src rb)"
  defines "keyof \<equiv> (\<lambda>li. loop_key uv_layer li (me_loops me ! li))"
  shows "n \<le> length (me_loops me)
       \<and> n = card (keyof ` {0..<length (me_loops me)})
       \<and> length (rb_region_xy rb) = n \<and> length (rb_uvs rb) = 2 * n
       \<and> (\<forall>li < length (me_loops me). \<exists>k < n. new_index_of rb uv_layer me li = Some k)
       \<and> (\<forall>li < length (me_loops me). \<forall>lj < length (me_loops me).
             new_index_of rb uv_layer me li = new_index_of rb uv_layer me lj
               \<longleftrightarrow> keyof li = keyof lj)"
proof -
  define L where "L = enumerate 0 (me_loops me)"
  define lk where "lk = rb_loopkey_to_new rb"
  have init: "region_inv \<lparr>rb_uvs = [], rb_region_xy = [], rb_new_to_src = [], rb_loopkey_to_new = []\<rparr>"
    by (simp add: region_inv_def)
  from region_fold_inv[OF init, of uv_layer img_w img_h L]
  have inv: "region_inv rb"
    and keys: "fst ` set lk = (\<lambda>(li, vi). loop_key uv_layer li vi) ` set L"
    by (simp_all add: rb_def build_region_vertices_uvs_def L_def lk_def)
  have Lset: "(\<lambda>(li, vi). loop_key uv_layer li vi) ` set L = keyof ` {0..<length (me_loops me)}"
  proof -
    have "set L = (\<lambda>li. (li, me_loops me ! li)) ` {0..<length (me_loops me)}"
      unfolding L_def by (rule set_enumerate_0)
    then show ?thesis by (simp add: image_image keyof_def)
  qed
  have nlk: "n = length lk" using inv by (simp add: region_inv_def n_def lk_def)
  have dk: "distinct (map fst lk)" and sn: "map snd lk = [0..<length lk]"
    using inv by (simp_all add: region_inv_def lk_def)
  have card: "n = card (keyof ` {0..<length (me_loops me)})"
    using distinct_card[OF dk] keys Lset nlk by simp
  have le: "n \<le> length (me_loops me)"
    unfolding card using card_image_le[of "{0..<length (me_loops me)}" keyof] by simp
  have res: "\<exists>k < n. new_index_of rb uv_layer me li = Some k" if "li < length (me_loops me)" for li
  proof -
    have "keyof li \<in> fst ` set lk" using that keys Lset by auto
    then have "map_of lk (keyof li) \<noteq> None" by (simp add: map_of_eq_None_iff)
    then obtain k where k: "map_of lk (keyof li) = Some k" by blast
    then have "k < n" using map_of_index_bound[OF sn] nlk by simp
    then show ?thesis using k by (auto simp: new_index_of_def lk_def keyof_def)
  qed
  have iff: "new_index_of rb uv_layer me li = new_index_of rb uv_layer me lj \<longleftrightarrow> keyof li = keyof lj"
    if "li < length (me_loops me)" "lj < length (me_loops me)" for li lj
  proof
    assume e: "new_index_of rb uv_layer me li = new_index_of rb uv_layer me lj"
    from res[OF that(1)] obtain k where "new_index_of rb uv_layer me li = Some k" by blast
    then have "map_of lk (keyof li) = Some k" "map_of lk (keyof lj) = Some k"
      using e by (simp_all add: new_index_of_def lk_def keyof_def)
    then show "keyof li = keyof lj" using map_of_index_inj[OF sn] by blast
  next
    assume "keyof li = keyof lj"
    then show "new_index_of rb uv_layer me li = new_index_of rb uv_layer me lj"
      by (simp add: new_index_of_def keyof_def)
  qed
  have lens: "length (rb_region_xy rb) = n" "length (rb_uvs rb) = 2 * n"
    using inv by (simp_all add: region_inv_def n_def)
  show ?thesis using le card lens res iff by blast
qed

theorem dedup_one_index_per_key_witness:
  "length (rb_new_to_src (build_region_vertices_uvs
       \<lparr>me_loops = [0, 1, 2, 0, 2, 3], me_loop_triangles = []\<rparr>
       (Some [(0, 0), (1, 0), (1, 1), (0, 0), (1, 1), (0, 1)]) 100 100))
     \<le> length (me_loops \<lparr>me_loops = [0, 1, 2, 0, 2, 3], me_loop_triangles = []\<rparr>)
   \<and> rb_new_to_src (build_region_vertices_uvs
       \<lparr>me_loops = [0, 1, 2, 0, 2, 3], me_loop_triangles = []\<rparr>
       (Some [(0, 0), (1, 0), (1, 1), (0, 0), (1, 1), (0, 1)]) 100 100)
     = [(0, 0), (1, 1), (2, 2), (3, 5)]
   \<and> new_index_of (build_region_vertices_uvs
       \<lparr>me_loops = [0, 1, 2, 0, 2, 3], me_loop_triangles = []\<rparr>
       (Some [(0, 0), (1, 0), (1, 1), (0, 0), (1, 1), (0, 1)]) 100 100)
       (Some [(0, 0), (1, 0), (1, 1), (0, 0), (1, 1), (0, 1)])
       \<lparr>me_loops = [0, 1, 2, 0, 2, 3], me_loop_triangles = []\<rparr> 3 = Some 0"
proof -
  have le: "length (rb_new_to_src (build_region_vertices_uvs
       \<lparr>me_loops = [0, 1, 2, 0, 2, 3], me_loop_triangles = []\<rparr>
       (Some [(0, 0), (1, 0), (1, 1), (0, 0), (1, 1), (0, 1)]) 100 100))
     \<le> length (me_loops \<lparr>me_loops = [0, 1, 2, 0, 2, 3], me_loop_triangles = []\<rparr>)"
    using dedup_one_index_per_key[of "\<lparr>me_loops = [0, 1, 2, 0, 2, 3], me_loop_triangles = []\<rparr>"
        "Some [(0, 0), (1, 0), (1, 1), (0, 0), (1, 1), (0, 1)]" 100 100]
    by (elim conjE)
  have ev: "rb_new_to_src (build_region_vertices_uvs
       \<lparr>me_loops = [0, 1, 2, 0, 2, 3], me_loop_triangles = []\<rparr>
       (Some [(0, 0), (1, 0), (1, 1), (0, 0), (1, 1), (0, 1)]) 100 100)
     = [(0, 0), (1, 1), (2, 2), (3, 5)]"
    by code_simp
  have ix: "new_index_of (build_region_vertices_uvs
       \<lparr>me_loops = [0, 1, 2, 0, 2, 3], me_loop_triangles = []\<rparr>
       (Some [(0, 0), (1, 0), (1, 1), (0, 0), (1, 1), (0, 1)]) 100 100)
       (Some [(0, 0), (1, 0), (1, 1), (0, 0), (1, 1), (0, 1)])
       \<lparr>me_loops = [0, 1, 2, 0, 2, 3], me_loop_triangles = []\<rparr> 3 = Some 0"
    by code_simp
  show ?thesis using le ev ix by (intro conjI)
qed

section \<open>Weight normalisation\<close>

lemma collect_raw_eq:
  "collect_raw vgs dn gs acc =
     acc @ concat (map (\<lambda>g. if g_group g < length vgs \<and> vgs ! g_group g \<noteq> []
                            \<and> vgs ! g_group g \<in> dn \<and> 0 < g_weight g
                         then [(vgs ! g_group g, g_weight g)] else []) gs)"
  by (induction gs arbitrary: acc) (auto simp: vg_index_to_name_def)

lemma sum_list_div: "sum_list (map (\<lambda>p. snd p / (s::rat)) xs) = sum_list (map snd xs) / s"
  by (induction xs) (simp_all add: add_divide_distrib)

lemma sum_list_pos:
  "xs \<noteq> [] \<Longrightarrow> \<forall>x \<in> set xs. (0::rat) < x \<Longrightarrow> 0 < sum_list xs"
  by (induction xs) (auto intro: add_pos_nonneg sum_list_nonneg less_imp_le)

lemma vertex_influences_spec:
  assumes "0 < eps" "1 \<le> maxi"
  shows "vertex_influences vgs dn eps maxi fb v = spec_influences vgs dn eps (nat maxi) fb v"
proof -
  define kept where "kept = take (nat maxi) (sort_key (\<lambda>p. - snd p)
                   (filter (\<lambda>p. eps < snd p) (deform_pairs vgs dn v)))"
  have c: "collect_raw vgs dn (v_groups v) [] = deform_pairs vgs dn v"
    by (simp add: collect_raw_eq deform_pairs_def)
  have k: "py_take maxi (sort_key (\<lambda>(bn, w). - w)
            (filter (\<lambda>(bn, w). w > eps) (collect_raw vgs dn (v_groups v) []))) = kept"
    using assms(2) by (simp add: py_take_def c kept_def case_prod_unfold)
  have pos: "\<forall>x \<in> set (map snd kept). 0 < x"
    using assms(1) by (auto simp: kept_def dest!: in_set_takeD)
  have s: "kept \<noteq> [] \<Longrightarrow> 0 < sum_list (map snd kept)"
    using sum_list_pos[of "map snd kept"] pos by simp
  show ?thesis
    unfolding vertex_influences_def spec_influences_def Let_def k kept_def[symmetric]
    using s by (simp add: case_prod_unfold)
qed

lemma spec_influences_props:
  assumes "0 < eps" "1 \<le> maxi"
  shows "spec_influences vgs dn eps maxi fb v \<noteq> []
       \<and> length (spec_influences vgs dn eps maxi fb v) \<le> maxi
       \<and> sum_list (map snd (spec_influences vgs dn eps maxi fb v)) = 1"
proof -
  define kept where "kept = take maxi (sort_key (\<lambda>p. - snd p)
                   (filter (\<lambda>p. eps < snd p) (deform_pairs vgs dn v)))"
  have pos: "\<forall>x \<in> set (map snd kept). 0 < x"
    using assms(1) by (auto simp: kept_def dest!: in_set_takeD)
  have s: "kept \<noteq> [] \<Longrightarrow> 0 < sum_list (map snd kept)"
    using sum_list_pos[of "map snd kept"] pos by simp
  have l: "length kept \<le> maxi" by (simp add: kept_def)
  show ?thesis
  proof (cases "kept = []")
    case True
    then show ?thesis using assms(2) by (simp add: spec_influences_def kept_def[symmetric])
  next
    case False
    have "sum_list (map snd (map (\<lambda>p. (fst p, snd p / sum_list (map snd kept))) kept)) = 1"
      using s[OF False] by (simp add: comp_def sum_list_div)
    then show ?thesis using False l
      by (simp add: spec_influences_def kept_def[symmetric] Let_def)
  qed
qed


lemma fold_upd_dom:
  "dom (foldl (\<lambda>out v. out(ix v \<mapsto> f v)) m vs) = dom m \<union> ix ` set vs"
  by (induction vs arbitrary: m) auto

lemma fold_upd_val:
  "foldl (\<lambda>out v. out(ix v \<mapsto> f v)) m vs k = Some x
     \<Longrightarrow> m k = Some x \<or> (\<exists>v \<in> set vs. ix v = k \<and> x = f v)"
proof (induction vs arbitrary: m)
  case Nil
  then show ?case by simp
next
  case (Cons v vs)
  have "foldl (\<lambda>out v. out(ix v \<mapsto> f v)) (m(ix v \<mapsto> f v)) vs k = Some x"
    using Cons.prems by (simp only: foldl_Cons)
  from Cons.IH[OF this]
  show ?case by (auto split: if_splits)
qed

lemma spec_influences_fallback:
  assumes "\<forall>p \<in> set (deform_pairs vgs dn v). snd p \<le> eps"
  shows "spec_influences vgs dn eps maxi fb v = [(fb, 1)]"
proof -
  have "filter (\<lambda>p. eps < snd p) (deform_pairs vgs dn v) = []"
    using assms by (auto simp: filter_empty_conv)
  then show ?thesis by (simp add: spec_influences_def)
qed

text \<open>
  Claim C3. With \<open>weight_eps > 0\<close> and \<open>max_influences \<ge> 1\<close>, the dictionary returned
  by \<open>build_vertex_influences\<close> has an entry for every vertex index of the mesh, and
  every entry is a non-empty list of at most \<open>max_influences\<close> influences whose weights
  sum to 1 (exactly, in exact arithmetic, hence within \<open>1e-6\<close>). The entry is the list
  the specification describes for a vertex of that index (\<open>spec_influences\<close>: deform
  weights above epsilon, sorted descending, truncated, renormalised), and it is the single
  entry \<open>(fallback_bone, 1)\<close> when that vertex has no deform weight above epsilon.
\<close>

theorem build_vertex_influences_normalized:
  assumes "0 < weight_eps" "1 \<le> max_influences"
  shows "dom (build_vertex_influences obj deform_names weight_eps max_influences fallback_bone)
           = v_index ` set (vertices obj)
       \<and> (\<forall>k infl.
             build_vertex_influences obj deform_names weight_eps max_influences fallback_bone k
               = Some infl \<longrightarrow>
             infl \<noteq> [] \<and> int (length infl) \<le> max_influences
           \<and> \<bar>sum_list (map snd infl) - 1\<bar> \<le> 1 / 10 ^ 6
           \<and> (\<exists>v \<in> set (vertices obj). v_index v = k
                \<and> infl = spec_influences (vertex_groups obj) deform_names weight_eps
                           (nat max_influences) fallback_bone v
                \<and> ((\<forall>p \<in> set (deform_pairs (vertex_groups obj) deform_names v).
                        snd p \<le> weight_eps)
                     \<longrightarrow> infl = [(fallback_bone, 1)])))"
proof -
  define f where "f = vertex_influences (vertex_groups obj) deform_names weight_eps
                        max_influences fallback_bone"
  define g where "g = spec_influences (vertex_groups obj) deform_names weight_eps
                        (nat max_influences) fallback_bone"
  have fg: "f v = g v" for v
    unfolding f_def g_def using vertex_influences_spec[OF assms] .
  have out: "build_vertex_influences obj deform_names weight_eps max_influences fallback_bone
               = foldl (\<lambda>out v. out(v_index v \<mapsto> f v)) Map.empty (vertices obj)"
    by (simp add: build_vertex_influences_def f_def)
  have m1: "(1::nat) \<le> nat max_influences" using assms(2) by simp
  have d: "dom (build_vertex_influences obj deform_names weight_eps max_influences fallback_bone)
           = v_index ` set (vertices obj)"
    unfolding out by (simp add: fold_upd_dom)
  have p: "infl \<noteq> [] \<and> int (length infl) \<le> max_influences
           \<and> \<bar>sum_list (map snd infl) - 1\<bar> \<le> 1 / 10 ^ 6
           \<and> (\<exists>v \<in> set (vertices obj). v_index v = k \<and> infl = g v
                \<and> ((\<forall>p \<in> set (deform_pairs (vertex_groups obj) deform_names v).
                        snd p \<le> weight_eps)
                     \<longrightarrow> infl = [(fallback_bone, 1)]))"
    if "build_vertex_influences obj deform_names weight_eps max_influences fallback_bone k
               = Some infl" for k infl
  proof -
    from fold_upd_val[OF that[unfolded out]] obtain v where
      v: "v \<in> set (vertices obj)" "v_index v = k" "infl = f v" by auto
    have e: "infl = g v" using v(3) fg by simp
    note sp = spec_influences_props[OF assms(1) m1, of "vertex_groups obj" deform_names
        fallback_bone v, folded g_def, folded e]
    have fb: "(\<forall>p \<in> set (deform_pairs (vertex_groups obj) deform_names v). snd p \<le> weight_eps)
                 \<longrightarrow> infl = [(fallback_bone, 1)]"
      using spec_influences_fallback[of "vertex_groups obj" deform_names v weight_eps]
      by (simp add: e g_def)
    have "int (length infl) \<le> max_influences" using sp assms(2) by linarith
    then show ?thesis using sp v e fb by auto
  qed
  show ?thesis using d p unfolding g_def by blast
qed

theorem build_vertex_influences_normalized_witness:
  "(0::rat) < 1 / 1000 \<and> (1::int) \<le> 2
   \<and> build_vertex_influences
        \<lparr>vertex_groups = [''a'', ''b'', ''c''],
         vertices = [\<lparr>v_index = 0, v_groups = [\<lparr>g_group = 0, g_weight = 1 / 4\<rparr>,
                       \<lparr>g_group = 1, g_weight = 1 / 2\<rparr>, \<lparr>g_group = 2, g_weight = 1 / 4\<rparr>]\<rparr>]\<rparr>
        {''a'', ''b'', ''c''} (1 / 1000) 2 ''root'' 0 = Some [(''b'', 2 / 3), (''a'', 1 / 3)]
   \<and> dom (build_vertex_influences
        \<lparr>vertex_groups = [''a'', ''b'', ''c''],
         vertices = [\<lparr>v_index = 0, v_groups = [\<lparr>g_group = 0, g_weight = 1 / 4\<rparr>,
                       \<lparr>g_group = 1, g_weight = 1 / 2\<rparr>, \<lparr>g_group = 2, g_weight = 1 / 4\<rparr>]\<rparr>]\<rparr>
        {''a'', ''b'', ''c''} (1 / 1000) 2 ''root'') = {0}"
proof -
  have h1: "(0::rat) < 1 / 1000" and h2: "(1::int) \<le> 2" by simp_all
  have ev: "build_vertex_influences
        \<lparr>vertex_groups = [''a'', ''b'', ''c''],
         vertices = [\<lparr>v_index = 0, v_groups = [\<lparr>g_group = 0, g_weight = 1 / 4\<rparr>,
                       \<lparr>g_group = 1, g_weight = 1 / 2\<rparr>, \<lparr>g_group = 2, g_weight = 1 / 4\<rparr>]\<rparr>]\<rparr>
        {''a'', ''b'', ''c''} (1 / 1000) 2 ''root'' 0 = Some [(''b'', 2 / 3), (''a'', 1 / 3)]"
    by (simp add: build_vertex_influences_def vertex_influences_def vg_index_to_name_def
        py_take_def)
  have d: "dom (build_vertex_influences
        \<lparr>vertex_groups = [''a'', ''b'', ''c''],
         vertices = [\<lparr>v_index = 0, v_groups = [\<lparr>g_group = 0, g_weight = 1 / 4\<rparr>,
                       \<lparr>g_group = 1, g_weight = 1 / 2\<rparr>, \<lparr>g_group = 2, g_weight = 1 / 4\<rparr>]\<rparr>]\<rparr>
        {''a'', ''b'', ''c''} (1 / 1000) 2 ''root'') = {0}"
    using build_vertex_influences_normalized[OF h1 h2, of
        "\<lparr>vertex_groups = [''a'', ''b'', ''c''],
         vertices = [\<lparr>v_index = 0, v_groups = [\<lparr>g_group = 0, g_weight = 1 / 4\<rparr>,
                       \<lparr>g_group = 1, g_weight = 1 / 2\<rparr>, \<lparr>g_group = 2, g_weight = 1 / 4\<rparr>]\<rparr>]\<rparr>"
        "{''a'', ''b'', ''c''}" "''root''"]
    by simp
  show ?thesis using h1 h2 ev d by (intro conjI)
qed

section \<open>Bone rotation\<close>

lemma py_mod_range: "0 < m \<Longrightarrow> 0 \<le> py_mod a m \<and> py_mod a m < m"
  using floor_divide_lower[of m a] floor_divide_upper[of m a]
  by (simp add: py_mod_def algebra_simps)

lemma normalize_deg_range: "- 180 < normalize_deg a \<and> normalize_deg a \<le> 180"
  using py_mod_range[of 360 "a + 180"] by (auto simp: normalize_deg_def Let_def)

lemma normalize_deg_cong: "\<exists>k::int. normalize_deg a = a + 360 * of_int k"
proof (cases "py_mod (a + 180) 360 - 180 = - 180")
  case True
  then have "normalize_deg a = 180" by (simp add: normalize_deg_def)
  moreover from True have "a + 180 - 360 * of_int \<lfloor>(a + 180) / 360\<rfloor> = 0"
    by (simp add: py_mod_def)
  ultimately have "normalize_deg a = a + 360 * of_int (1 - \<lfloor>(a + 180) / 360\<rfloor>)"
    by (simp add: algebra_simps)
  then show ?thesis by blast
next
  case False
  then have "normalize_deg a = a + 360 * of_int (- \<lfloor>(a + 180) / 360\<rfloor>)"
    by (simp add: normalize_deg_def py_mod_def Let_def)
  then show ?thesis by blast
qed

lemma range_cong_unique:
  fixes x y :: rat
  assumes "- 180 < x" "x \<le> 180" "- 180 < y" "y \<le> 180" "x = y + 360 * of_int k"
  shows "x = y"
proof -
  have "360 * (of_int k :: rat) < 360" "- 360 < 360 * (of_int k :: rat)" using assms by linarith+
  then have "(of_int k :: rat) < 1" "- 1 < (of_int k :: rat)" by simp_all
  then have "k < 1" "- 1 < k" by (simp_all flip: of_int_less_iff)
  then have "k = 0" by simp
  then show ?thesis using assms(5) by simp
qed

lemma normalize_deg_neg:
  "normalize_deg (- a) = (if normalize_deg a = 180 then 180 else - normalize_deg a)"
proof -
  obtain k where k: "normalize_deg a = a + 360 * of_int k" using normalize_deg_cong by blast
  obtain j where j: "normalize_deg (- a) = - a + 360 * of_int j" using normalize_deg_cong by blast
  note ra = normalize_deg_range[of a] and rn = normalize_deg_range[of "- a"]
  show ?thesis
  proof (cases "normalize_deg a = 180")
    case True
    have "normalize_deg (- a) = 180 + 360 * of_int (j + k - 1)"
      using k j True by (simp add: algebra_simps)
    from range_cong_unique[OF _ _ _ _ this] rn show ?thesis using True by simp
  next
    case False
    have "normalize_deg (- a) = - normalize_deg a + 360 * of_int (j + k)"
      using k j by (simp add: algebra_simps)
    from range_cong_unique[OF _ _ _ _ this] rn ra False show ?thesis by simp
  qed
qed

text \<open>
  Claim C4, as the code has it. The rotation of a non-root bone is the negated relative
  angle (the parent's frame-space angle minus the bone's) normalised to \<open>(-180, 180]\<close>,
  with its sign flipped exactly when the normalised relative angle's absolute value is
  further than the tolerance from 90 degrees. \<open>normalize_deg\<close> lands in \<open>(-180, 180]\<close>,
  differs from its argument by a multiple of 360, and on the negated angle it is the
  negation of the normalised angle except at 180. The \<open>rotation\<close> field is that value
  rounded to 4 decimals, absent when the value is within \<open>1e-6\<close> of zero.
\<close>

theorem bone_rot_spine_negated_relative:
  "bone_rot_spine angle_b angle_p tol =
     (if \<bar>\<bar>normalize_deg (angle_b - angle_p)\<bar> - 90\<bar> > tol
      then - normalize_deg (angle_p - angle_b) else normalize_deg (angle_p - angle_b))
   \<and> - 180 < normalize_deg a \<and> normalize_deg a \<le> 180
   \<and> (\<exists>k::int. normalize_deg a = a + 360 * of_int k)
   \<and> normalize_deg (- a) = (if normalize_deg a = 180 then 180 else - normalize_deg a)
   \<and> bone_rotation_field angle_b angle_p tol =
       (if \<bar>bone_rot_spine angle_b angle_p tol\<bar> > 1 / 10 ^ 6
        then Some (py_round (bone_rot_spine angle_b angle_p tol) 4) else None)"
proof -
  have 1: "bone_rot_spine angle_b angle_p tol =
     (if \<bar>\<bar>normalize_deg (angle_b - angle_p)\<bar> - 90\<bar> > tol
      then - normalize_deg (angle_p - angle_b) else normalize_deg (angle_p - angle_b))"
    by (simp add: bone_rot_spine_def is_vertical_rel_deg_def Let_def not_le)
  have 5: "bone_rotation_field angle_b angle_p tol =
       (if \<bar>bone_rot_spine angle_b angle_p tol\<bar> > 1 / 10 ^ 6
        then Some (py_round (bone_rot_spine angle_b angle_p tol) 4) else None)"
    by (simp add: bone_rotation_field_def Let_def)
  show ?thesis
    using 1 5 normalize_deg_range[of a] normalize_deg_cong[of a] normalize_deg_neg[of a]
    by (intro conjI) simp_all
qed

text \<open>
  The claim as stated (\<open>claimed_rot_spine\<close>) has the sign the other way round: a bone at
  30 degrees under a parent at 0 is exported with rotation 30, and one at 90 degrees with
  rotation -90.
\<close>

theorem rotation_claim_counterexample:
  "bone_rot_spine 30 0 5 = 30 \<and> claimed_rot_spine 30 0 5 = - 30
   \<and> bone_rot_spine 90 0 5 = - 90 \<and> claimed_rot_spine 90 0 5 = 90"
  by code_simp

section \<open>Curve codec\<close>

lemma handles_some:
  "handles_to_curve_abs_seconds (Some ki) (Some kj) fps (Some xf)
     = (if bezier_segment ki kj then Some (curve4 ki kj fps xf) else None)"
  by (cases "co ki"; cases "co kj"; cases "handle_right ki"; cases "handle_left kj")
     (auto simp: handles_to_curve_abs_seconds_def bezier_segment_def curve4_def Let_def)

lemma handles_none:
  "handles_to_curve_abs_seconds None kj fps xf = None"
  "handles_to_curve_abs_seconds ki None fps xf = None"
  by (auto simp: handles_to_curve_abs_seconds_def split: option.splits)

lemma handles_iff:
  "handles_to_curve_abs_seconds a b fps (Some xf) = Some c \<longleftrightarrow>
     (\<exists>ki kj. a = Some ki \<and> b = Some kj \<and> bezier_segment ki kj \<and> c = curve4 ki kj fps xf)"
  by (cases a; cases b) (auto simp: handles_some handles_none)

lemma bezier_not_constant:
  "bezier_segment ki kj \<Longrightarrow> interpolation ki \<noteq> ''CONSTANT''"
  by (auto simp: bezier_segment_def)

lemma segment_curve_single_eq:
  "segment_curve [fc] [km] fps [xf] f nxt =
     (if (case km f of Some k \<Rightarrow> interpolation k = ''CONSTANT'' | None \<Rightarrow> False)
      then Inr (Some Stepped)
      else Inr (case handles_to_curve_abs_seconds (km f) (km nxt) fps (Some xf) of
             Some c \<Rightarrow> Some (CurveArray c) | None \<Rightarrow> None))"
  unfolding segment_curve_def xform_arg_def Let_def
  by (cases "handles_to_curve_abs_seconds (km f) (km nxt) fps (Some xf)") simp_all

lemma segment_curve_single:
  "\<exists>t. segment_curve [fc] [km] fps [xf] f nxt = Inr t \<and>
     (\<forall>c. t = Some (CurveArray c) \<longleftrightarrow>
        (\<exists>ki kj. km f = Some ki \<and> km nxt = Some kj \<and> bezier_segment ki kj
                 \<and> c = curve4 ki kj fps xf))"
proof (cases "case km f of Some k \<Rightarrow> interpolation k = ''CONSTANT'' | None \<Rightarrow> False")
  case True
  then obtain k where k: "km f = Some k" "interpolation k = ''CONSTANT''"
    by (cases "km f") simp_all
  have 1: "segment_curve [fc] [km] fps [xf] f nxt = Inr (Some Stepped)"
    unfolding segment_curve_single_eq using k by simp
  have 2: "\<not> (\<exists>ki kj. km f = Some ki \<and> km nxt = Some kj \<and> bezier_segment ki kj
                 \<and> c = curve4 ki kj fps xf)" for c
    using k bezier_not_constant by fastforce
  show ?thesis using 1 2 by simp
next
  case False
  define h where "h = handles_to_curve_abs_seconds (km f) (km nxt) fps (Some xf)"
  have 1: "segment_curve [fc] [km] fps [xf] f nxt =
      Inr (case h of Some c \<Rightarrow> Some (CurveArray c) | None \<Rightarrow> None)"
    unfolding segment_curve_single_eq h_def using False by simp
  have 2: "(case h of Some c \<Rightarrow> Some (CurveArray c) | None \<Rightarrow> None) = Some (CurveArray c)
        \<longleftrightarrow> (\<exists>ki kj. km f = Some ki \<and> km nxt = Some kj \<and> bezier_segment ki kj
                 \<and> c = curve4 ki kj fps xf)" for c
    using handles_iff[of "km f" "km nxt" fps xf c] unfolding h_def[symmetric]
    by (cases h) simp_all
  show ?thesis unfolding 1 using 2 by simp
qed

lemma segment_curve_double_eq:
  "segment_curve [fx, fy] [kmx, kmy] fps [xfx, xfy] f nxt =
     (if (case kmx f of Some k \<Rightarrow> interpolation k = ''CONSTANT'' | None \<Rightarrow> False)
      then Inr (Some Stepped)
      else Inr (case (handles_to_curve_abs_seconds (kmx f) (kmx nxt) fps (Some xfx),
                      handles_to_curve_abs_seconds (kmy f) (kmy nxt) fps (Some xfy)) of
                  (Some a, Some b) \<Rightarrow> Some (CurveArray (a @ b)) | _ \<Rightarrow> None))"
  unfolding segment_curve_def xform_arg_def Let_def
  by (cases "handles_to_curve_abs_seconds (kmx f) (kmx nxt) fps (Some xfx)";
      cases "handles_to_curve_abs_seconds (kmy f) (kmy nxt) fps (Some xfy)") simp_all

lemma segment_curve_double:
  "\<exists>t. segment_curve [fx, fy] [kmx, kmy] fps [xfx, xfy] f nxt = Inr t \<and>
     (\<forall>c. t = Some (CurveArray c) \<longleftrightarrow>
        (\<exists>kix kjx kiy kjy. kmx f = Some kix \<and> kmx nxt = Some kjx \<and> bezier_segment kix kjx
                 \<and> kmy f = Some kiy \<and> kmy nxt = Some kjy \<and> bezier_segment kiy kjy
                 \<and> c = curve4 kix kjx fps xfx @ curve4 kiy kjy fps xfy))"
proof (cases "case kmx f of Some k \<Rightarrow> interpolation k = ''CONSTANT'' | None \<Rightarrow> False")
  case True
  then obtain k where k: "kmx f = Some k" "interpolation k = ''CONSTANT''"
    by (cases "kmx f") simp_all
  have 1: "segment_curve [fx, fy] [kmx, kmy] fps [xfx, xfy] f nxt = Inr (Some Stepped)"
    unfolding segment_curve_double_eq using k by simp
  have 2: "\<not> (\<exists>kix kjx kiy kjy. kmx f = Some kix \<and> kmx nxt = Some kjx \<and> bezier_segment kix kjx
                 \<and> kmy f = Some kiy \<and> kmy nxt = Some kjy \<and> bezier_segment kiy kjy
                 \<and> c = curve4 kix kjx fps xfx @ curve4 kiy kjy fps xfy)" for c
    using k bezier_not_constant by fastforce
  show ?thesis using 1 2 by simp
next
  case False
  define cx where "cx = handles_to_curve_abs_seconds (kmx f) (kmx nxt) fps (Some xfx)"
  define cy where "cy = handles_to_curve_abs_seconds (kmy f) (kmy nxt) fps (Some xfy)"
  have 1: "segment_curve [fx, fy] [kmx, kmy] fps [xfx, xfy] f nxt =
      Inr (case (cx, cy) of (Some a, Some b) \<Rightarrow> Some (CurveArray (a @ b)) | _ \<Rightarrow> None)"
    unfolding segment_curve_double_eq cx_def cy_def using False by simp
  have 2: "(case (cx, cy) of (Some a, Some b) \<Rightarrow> Some (CurveArray (a @ b)) | _ \<Rightarrow> None)
         = Some (CurveArray c)
        \<longleftrightarrow> (\<exists>kix kjx kiy kjy. kmx f = Some kix \<and> kmx nxt = Some kjx \<and> bezier_segment kix kjx
                 \<and> kmy f = Some kiy \<and> kmy nxt = Some kjy \<and> bezier_segment kiy kjy
                 \<and> c = curve4 kix kjx fps xfx @ curve4 kiy kjy fps xfy)" for c
  proof
    assume "(case (cx, cy) of (Some a, Some b) \<Rightarrow> Some (CurveArray (a @ b)) | _ \<Rightarrow> None)
         = Some (CurveArray c)"
    then obtain a b where ab: "cx = Some a" "cy = Some b" "c = a @ b"
      by (cases cx; cases cy) simp_all
    from ab(1) handles_iff[of "kmx f" "kmx nxt" fps xfx a] obtain kix kjx where
      x: "kmx f = Some kix" "kmx nxt = Some kjx" "bezier_segment kix kjx" "a = curve4 kix kjx fps xfx"
      unfolding cx_def by blast
    from ab(2) handles_iff[of "kmy f" "kmy nxt" fps xfy b] obtain kiy kjy where
      y: "kmy f = Some kiy" "kmy nxt = Some kjy" "bezier_segment kiy kjy" "b = curve4 kiy kjy fps xfy"
      unfolding cy_def by blast
    show "\<exists>kix kjx kiy kjy. kmx f = Some kix \<and> kmx nxt = Some kjx \<and> bezier_segment kix kjx
                 \<and> kmy f = Some kiy \<and> kmy nxt = Some kjy \<and> bezier_segment kiy kjy
                 \<and> c = curve4 kix kjx fps xfx @ curve4 kiy kjy fps xfy"
      using x y ab(3) by blast
  next
    assume "\<exists>kix kjx kiy kjy. kmx f = Some kix \<and> kmx nxt = Some kjx \<and> bezier_segment kix kjx
                 \<and> kmy f = Some kiy \<and> kmy nxt = Some kjy \<and> bezier_segment kiy kjy
                 \<and> c = curve4 kix kjx fps xfx @ curve4 kiy kjy fps xfy"
    then obtain kix kjx kiy kjy where
      h: "kmx f = Some kix" "kmx nxt = Some kjx" "bezier_segment kix kjx"
         "kmy f = Some kiy" "kmy nxt = Some kjy" "bezier_segment kiy kjy"
         "c = curve4 kix kjx fps xfx @ curve4 kiy kjy fps xfy" by blast
    have "cx = Some (curve4 kix kjx fps xfx)" "cy = Some (curve4 kiy kjy fps xfy)"
      using h by (simp_all add: cx_def cy_def handles_some)
    then show "(case (cx, cy) of (Some a, Some b) \<Rightarrow> Some (CurveArray (a @ b)) | _ \<Rightarrow> None)
         = Some (CurveArray c)" using h(7) by simp
  qed
  show ?thesis unfolding 1 using 2 by simp
qed

lemma emit_loop_map:
  assumes "\<forall>idx \<in> set idxs. body idx = Inr (r idx)"
  shows "\<exists>so'. emit_loop body idxs keys so = Inr (keys @ map r idxs, so')"
  using assms
proof (induction idxs arbitrary: keys so)
  case Nil
  then show ?case by simp
next
  case (Cons i idxs)
  have b: "body i = Inr (r i)" using Cons.prems by simp
  have rest: "\<forall>idx \<in> set idxs. body idx = Inr (r idx)" using Cons.prems by simp
  from Cons.IH[OF rest, of "keys @ [r i]"
      "if is_curve_array (k_curve (r i)) then False else so"]
  show ?case using b by simp
qed


lemma emit_all:
  assumes "fcurves \<noteq> []"
    and "\<And>idx. \<exists>rc. emit_record fcurves (map knot_map_by_frame fcurves) fps ts xfs
                       (key_frames fcurves) idx = Inr rc \<and> P idx rc"
  shows "\<exists>keys so. emit_channel_timelines fps fcurves ts xfs = Inr (keys, so)
           \<and> length keys = length (key_frames fcurves)
           \<and> (\<forall>idx < length (key_frames fcurves). P idx (keys ! idx))"
proof -
  define frames where "frames = key_frames fcurves"
  define body where "body = emit_record fcurves (map knot_map_by_frame fcurves) fps ts xfs frames"
  define r where "r = (\<lambda>idx. projr (body idx))"
  have b: "body idx = Inr (r idx) \<and> P idx (r idx)" for idx
    using assms(2)[of idx] unfolding body_def r_def frames_def by auto
  show ?thesis
  proof (cases "frames = []")
    case True
    then have "emit_channel_timelines fps fcurves ts xfs = Inr ([], False)"
      using assms(1) by (simp add: emit_channel_timelines_def frames_def[symmetric])
    then show ?thesis using True unfolding frames_def[symmetric]
      by (intro exI[of _ "[]"] exI[of _ False]) simp
  next
    case False
    from emit_loop_map[of "[0..<length frames]" body r "[]" True] b
    obtain so where so: "emit_loop body [0..<length frames] [] True
         = Inr (map r [0..<length frames], so)" by auto
    have "emit_channel_timelines fps fcurves ts xfs = Inr (map r [0..<length frames], so)"
      using assms(1) False so
      by (simp add: emit_channel_timelines_def frames_def[symmetric] Let_def body_def)
    moreover have "\<forall>idx < length frames. P idx (map r [0..<length frames] ! idx)"
      using b by simp
    ultimately show ?thesis unfolding frames_def[symmetric] by simp
  qed
qed

lemma emit_record_single:
  "\<exists>rc. emit_record [fc] [km] fps ts [xf] frames idx = Inr rc \<and>
     (\<forall>c. k_curve rc = Some (CurveArray c) \<longleftrightarrow>
        idx + 1 < length frames \<and>
        (\<exists>ki kj. km (frames ! idx) = Some ki \<and> km (frames ! (idx + 1)) = Some kj
                 \<and> bezier_segment ki kj \<and> c = curve4 ki kj fps xf))"
proof (cases "idx < length frames - 1")
  case True
  from segment_curve_single[of fc km fps xf "frames ! idx" "frames ! (idx + 1)"]
  obtain t where t: "segment_curve [fc] [km] fps [xf] (frames ! idx) (frames ! (idx + 1)) = Inr t"
    and tc: "\<And>c. t = Some (CurveArray c) \<longleftrightarrow>
        (\<exists>ki kj. km (frames ! idx) = Some ki \<and> km (frames ! (idx + 1)) = Some kj
                 \<and> bezier_segment ki kj \<and> c = curve4 ki kj fps xf)" by blast
  have lt: "idx + 1 < length frames" using True by simp
  show ?thesis
    using True t tc lt by (simp add: emit_record_def Let_def)
next
  case False
  then have "\<not> idx + 1 < length frames" by simp
  then show ?thesis using False by (simp add: emit_record_def Let_def)
qed

lemma emit_record_double:
  "\<exists>rc. emit_record [fx, fy] [kmx, kmy] fps ts [xfx, xfy] frames idx = Inr rc \<and>
     (\<forall>c. k_curve rc = Some (CurveArray c) \<longleftrightarrow>
        idx + 1 < length frames \<and>
        (\<exists>kix kjx kiy kjy.
            kmx (frames ! idx) = Some kix \<and> kmx (frames ! (idx + 1)) = Some kjx
          \<and> bezier_segment kix kjx
          \<and> kmy (frames ! idx) = Some kiy \<and> kmy (frames ! (idx + 1)) = Some kjy
          \<and> bezier_segment kiy kjy
          \<and> c = curve4 kix kjx fps xfx @ curve4 kiy kjy fps xfy))"
proof (cases "idx < length frames - 1")
  case True
  from segment_curve_double[of fx fy kmx kmy fps xfx xfy "frames ! idx" "frames ! (idx + 1)"]
  obtain t where
    t: "segment_curve [fx, fy] [kmx, kmy] fps [xfx, xfy] (frames ! idx) (frames ! (idx + 1)) = Inr t"
    and tc: "\<And>c. t = Some (CurveArray c) \<longleftrightarrow>
        (\<exists>kix kjx kiy kjy.
            kmx (frames ! idx) = Some kix \<and> kmx (frames ! (idx + 1)) = Some kjx
          \<and> bezier_segment kix kjx
          \<and> kmy (frames ! idx) = Some kiy \<and> kmy (frames ! (idx + 1)) = Some kjy
          \<and> bezier_segment kiy kjy
          \<and> c = curve4 kix kjx fps xfx @ curve4 kiy kjy fps xfy)" by blast
  have lt: "idx + 1 < length frames" using True by simp
  show ?thesis
    using True t tc lt by (simp add: emit_record_def Let_def)
next
  case False
  then have "\<not> idx + 1 < length frames" by simp
  then show ?thesis using False by (simp add: emit_record_def Let_def)
qed

text \<open>
  Claim C7. In the records of \<open>_emit_channel_timelines\<close>, called as
  \<open>build_animations\<close> calls it (one channel with one value transform, or two channels
  with two), the record of a frame carries a curve array if and only if the frame has a
  successor and, in every channel, the keyframes found at the frame and at its successor
  both use Bezier interpolation, their raw values differ by more than \<open>1e-12\<close> and their
  raw times by more than \<open>1e-12\<close> frames. The array is then the four numbers
  \<open>[cx1, cy1, cx2, cy2]\<close> of the channel, and for two channels the four numbers of the
  first channel followed by those of the second, eight numbers.
\<close>

theorem curve_array_iff_bezier_segment:
  "(\<exists>keys so. emit_channel_timelines fps [fc] ts [xf] = Inr (keys, so)
       \<and> length keys = length (key_frames [fc])
       \<and> (\<forall>idx < length (key_frames [fc]). \<forall>c.
             k_curve (keys ! idx) = Some (CurveArray c) \<longleftrightarrow>
               idx + 1 < length (key_frames [fc]) \<and>
               (\<exists>ki kj. knot_map_by_frame fc (key_frames [fc] ! idx) = Some ki
                       \<and> knot_map_by_frame fc (key_frames [fc] ! (idx + 1)) = Some kj
                       \<and> bezier_segment ki kj \<and> c = curve4 ki kj fps xf)))
   \<and> (\<exists>keys so. emit_channel_timelines fps [fx, fy] ts [xfx, xfy] = Inr (keys, so)
       \<and> length keys = length (key_frames [fx, fy])
       \<and> (\<forall>idx < length (key_frames [fx, fy]). \<forall>c.
             k_curve (keys ! idx) = Some (CurveArray c) \<longleftrightarrow>
               idx + 1 < length (key_frames [fx, fy]) \<and>
               (\<exists>kix kjx kiy kjy.
                   knot_map_by_frame fx (key_frames [fx, fy] ! idx) = Some kix
                 \<and> knot_map_by_frame fx (key_frames [fx, fy] ! (idx + 1)) = Some kjx
                 \<and> bezier_segment kix kjx
                 \<and> knot_map_by_frame fy (key_frames [fx, fy] ! idx) = Some kiy
                 \<and> knot_map_by_frame fy (key_frames [fx, fy] ! (idx + 1)) = Some kjy
                 \<and> bezier_segment kiy kjy
                 \<and> c = curve4 kix kjx fps xfx @ curve4 kiy kjy fps xfy
                 \<and> length c = 8)))"
proof -
  have l4: "length (curve4 a b fps g) = 4" for a b g by (simp add: curve4_def)
  have s: "\<exists>keys so. emit_channel_timelines fps [fc] ts [xf] = Inr (keys, so)
       \<and> length keys = length (key_frames [fc])
       \<and> (\<forall>idx < length (key_frames [fc]). \<forall>c.
             k_curve (keys ! idx) = Some (CurveArray c) \<longleftrightarrow>
               idx + 1 < length (key_frames [fc]) \<and>
               (\<exists>ki kj. knot_map_by_frame fc (key_frames [fc] ! idx) = Some ki
                       \<and> knot_map_by_frame fc (key_frames [fc] ! (idx + 1)) = Some kj
                       \<and> bezier_segment ki kj \<and> c = curve4 ki kj fps xf))"
    apply (rule emit_all)
     apply simp
    apply (simp only: list.map)
    apply (rule emit_record_single)
    done
  have d: "\<exists>keys so. emit_channel_timelines fps [fx, fy] ts [xfx, xfy] = Inr (keys, so)
       \<and> length keys = length (key_frames [fx, fy])
       \<and> (\<forall>idx < length (key_frames [fx, fy]). \<forall>c.
             k_curve (keys ! idx) = Some (CurveArray c) \<longleftrightarrow>
               idx + 1 < length (key_frames [fx, fy]) \<and>
               (\<exists>kix kjx kiy kjy.
                   knot_map_by_frame fx (key_frames [fx, fy] ! idx) = Some kix
                 \<and> knot_map_by_frame fx (key_frames [fx, fy] ! (idx + 1)) = Some kjx
                 \<and> bezier_segment kix kjx
                 \<and> knot_map_by_frame fy (key_frames [fx, fy] ! idx) = Some kiy
                 \<and> knot_map_by_frame fy (key_frames [fx, fy] ! (idx + 1)) = Some kjy
                 \<and> bezier_segment kiy kjy
                 \<and> c = curve4 kix kjx fps xfx @ curve4 kiy kjy fps xfy
                 \<and> length c = 8))"
  proof (rule emit_all)
    show "[fx, fy] \<noteq> []" by simp
  next
    fix idx
    from emit_record_double[of fx fy "knot_map_by_frame fx" "knot_map_by_frame fy" fps ts xfx xfy
        "key_frames [fx, fy]" idx]
    obtain rc where rc: "emit_record [fx, fy] [knot_map_by_frame fx, knot_map_by_frame fy] fps ts
          [xfx, xfy] (key_frames [fx, fy]) idx = Inr rc"
      and c: "\<And>c. k_curve rc = Some (CurveArray c) \<longleftrightarrow>
        idx + 1 < length (key_frames [fx, fy]) \<and>
        (\<exists>kix kjx kiy kjy.
            knot_map_by_frame fx (key_frames [fx, fy] ! idx) = Some kix
          \<and> knot_map_by_frame fx (key_frames [fx, fy] ! (idx + 1)) = Some kjx
          \<and> bezier_segment kix kjx
          \<and> knot_map_by_frame fy (key_frames [fx, fy] ! idx) = Some kiy
          \<and> knot_map_by_frame fy (key_frames [fx, fy] ! (idx + 1)) = Some kjy
          \<and> bezier_segment kiy kjy
          \<and> c = curve4 kix kjx fps xfx @ curve4 kiy kjy fps xfy)" by blast
    have "\<forall>c. k_curve rc = Some (CurveArray c) \<longleftrightarrow>
        idx + 1 < length (key_frames [fx, fy]) \<and>
        (\<exists>kix kjx kiy kjy.
            knot_map_by_frame fx (key_frames [fx, fy] ! idx) = Some kix
          \<and> knot_map_by_frame fx (key_frames [fx, fy] ! (idx + 1)) = Some kjx
          \<and> bezier_segment kix kjx
          \<and> knot_map_by_frame fy (key_frames [fx, fy] ! idx) = Some kiy
          \<and> knot_map_by_frame fy (key_frames [fx, fy] ! (idx + 1)) = Some kjy
          \<and> bezier_segment kiy kjy
          \<and> c = curve4 kix kjx fps xfx @ curve4 kiy kjy fps xfy
          \<and> length c = 8)"
      unfolding c using l4 by auto
    then show "\<exists>rc. emit_record [fx, fy] (map knot_map_by_frame [fx, fy]) fps ts [xfx, xfy]
                  (key_frames [fx, fy]) idx = Inr rc \<and>
          (\<forall>c. k_curve rc = Some (CurveArray c) \<longleftrightarrow>
        idx + 1 < length (key_frames [fx, fy]) \<and>
        (\<exists>kix kjx kiy kjy.
            knot_map_by_frame fx (key_frames [fx, fy] ! idx) = Some kix
          \<and> knot_map_by_frame fx (key_frames [fx, fy] ! (idx + 1)) = Some kjx
          \<and> bezier_segment kix kjx
          \<and> knot_map_by_frame fy (key_frames [fx, fy] ! idx) = Some kiy
          \<and> knot_map_by_frame fy (key_frames [fx, fy] ! (idx + 1)) = Some kjy
          \<and> bezier_segment kiy kjy
          \<and> c = curve4 kix kjx fps xfx @ curve4 kiy kjy fps xfy
          \<and> length c = 8))"
      using rc by simp
  qed
  show ?thesis using s d by (intro conjI)
qed

theorem curve_array_iff_bezier_segment_witness:
  "emit_channel_timelines 24 [example_rot_curve] (\<lambda>f. scene_seconds (of_int f) 24)
       [\<lambda>v. py_round (example_degrees v) 4]
     = Inr ([\<lparr>k_time = 0, k_vals = Some [0],
              k_curve = Some (CurveArray [333333 / 1000000, 0, 666667 / 1000000, 572958 / 10000]),
              k_x = None, k_y = None, k_value = None\<rparr>,
             \<lparr>k_time = 1, k_vals = Some [572958 / 10000], k_curve = None,
              k_x = None, k_y = None, k_value = None\<rparr>], False)
   \<and> (\<exists>ki kj. knot_map_by_frame example_rot_curve 0 = Some ki
          \<and> knot_map_by_frame example_rot_curve 24 = Some kj \<and> bezier_segment ki kj
          \<and> [333333 / 1000000, 0, 666667 / 1000000, 572958 / 10000]
              = curve4 ki kj 24 (\<lambda>v. py_round (example_degrees v) 4))"
proof -
  let ?ts = "\<lambda>f. scene_seconds (of_int f) 24"
  let ?xf = "\<lambda>v. py_round (example_degrees v) 4"
  let ?K = "[\<lparr>k_time = 0, k_vals = Some [0],
              k_curve = Some (CurveArray [333333 / 1000000, 0, 666667 / 1000000, 572958 / 10000]),
              k_x = None, k_y = None, k_value = None\<rparr>,
             \<lparr>k_time = 1, k_vals = Some [572958 / 10000], k_curve = None,
              k_x = None, k_y = None, k_value = None\<rparr>]"
  have ev: "emit_channel_timelines 24 [example_rot_curve] ?ts [?xf] = Inr (?K, False)"
    by code_simp
  have kf: "key_frames [example_rot_curve] = [0, 24]" by code_simp
  from curve_array_iff_bezier_segment[of 24 example_rot_curve ?ts ?xf]
  obtain keys so where
    e: "emit_channel_timelines 24 [example_rot_curve] ?ts [?xf] = Inr (keys, so)"
    and iff: "\<forall>idx < length (key_frames [example_rot_curve]). \<forall>c.
             k_curve (keys ! idx) = Some (CurveArray c) \<longleftrightarrow>
               idx + 1 < length (key_frames [example_rot_curve]) \<and>
               (\<exists>ki kj. knot_map_by_frame example_rot_curve (key_frames [example_rot_curve] ! idx) = Some ki
                       \<and> knot_map_by_frame example_rot_curve (key_frames [example_rot_curve] ! (idx + 1)) = Some kj
                       \<and> bezier_segment ki kj \<and> c = curve4 ki kj 24 ?xf)"
    by blast
  have k: "keys = ?K" using e ev by simp
  have "k_curve (keys ! 0) = Some (CurveArray [333333 / 1000000, 0, 666667 / 1000000, 572958 / 10000])"
    unfolding k by simp
  with iff[rule_format, of 0 "[333333 / 1000000, 0, 666667 / 1000000, 572958 / 10000]"]
  have "\<exists>ki kj. knot_map_by_frame example_rot_curve 0 = Some ki
          \<and> knot_map_by_frame example_rot_curve 24 = Some kj \<and> bezier_segment ki kj
          \<and> [333333 / 1000000, 0, 666667 / 1000000, 572958 / 10000] = curve4 ki kj 24 ?xf"
    unfolding kf by simp
  then show ?thesis using ev by blast
qed

section \<open>Timelines of \<open>build_animations\<close>\<close>

lemma emit_loop_inr:
  assumes "emit_loop body idxs keys so = Inr (keys', so')"
  shows "keys' = keys @ map (\<lambda>idx. projr (body idx)) idxs
       \<and> (\<forall>idx \<in> set idxs. body idx = Inr (projr (body idx)))"
  using assms
proof (induction idxs arbitrary: keys so)
  case Nil
  then show ?case by simp
next
  case (Cons i idxs)
  from Cons.prems obtain rc where rc: "body i = Inr rc"
    by (cases "body i") simp_all
  then have "emit_loop body idxs (keys @ [rc])
       (if is_curve_array (k_curve rc) then False else so) = Inr (keys', so')"
    using Cons.prems by simp
  from Cons.IH[OF this] rc show ?case by simp
qed

lemma emit_record_fields:
  assumes "emit_record fcurves knotmaps fps ts xfs frames idx = Inr rc"
  shows "k_time rc = py_round (ts (frames ! idx)) 6
       \<and> k_vals rc = Some (map (\<lambda>(ch, fc). channel_xform xfs ch (evaluate fc (frames ! idx)))
                            (enumerate 0 fcurves))
       \<and> k_x rc = None \<and> k_y rc = None \<and> k_value rc = None"
  using assms
  by (auto simp: emit_record_def Let_def split: if_splits sum.splits)

lemma emit_fields:
  assumes "emit_channel_timelines fps fcurves ts xfs = Inr (keys, so)" "keys \<noteq> []"
  shows "length keys = length (key_frames fcurves)
       \<and> (\<forall>i < length keys.
             k_time (keys ! i) = py_round (ts (key_frames fcurves ! i)) 6
           \<and> k_vals (keys ! i)
               = Some (map (\<lambda>(ch, fc). channel_xform xfs ch (evaluate fc (key_frames fcurves ! i)))
                        (enumerate 0 fcurves))
           \<and> k_value (keys ! i) = None)"
proof -
  define frames where "frames = key_frames fcurves"
  define body where "body = emit_record fcurves (map knot_map_by_frame fcurves) fps ts xfs frames"
  have ne: "fcurves \<noteq> []" "frames \<noteq> []"
    using assms by (auto simp: emit_channel_timelines_def frames_def Let_def split: if_splits)
  have run: "emit_loop body [0..<length frames] [] True = Inr (keys, so)"
    using assms(1) ne by (simp add: emit_channel_timelines_def frames_def[symmetric] Let_def body_def)
  from emit_loop_inr[OF run] have
    k: "keys = map (\<lambda>idx. projr (body idx)) [0..<length frames]"
    and ok: "\<forall>idx < length frames. body idx = Inr (projr (body idx))" by auto
  have len: "length keys = length frames" using k by simp
  have "k_time (keys ! i) = py_round (ts (frames ! i)) 6
           \<and> k_vals (keys ! i)
               = Some (map (\<lambda>(ch, fc). channel_xform xfs ch (evaluate fc (frames ! i)))
                        (enumerate 0 fcurves))
           \<and> k_value (keys ! i) = None" if "i < length keys" for i
  proof -
    have i: "i < length frames" using that len by simp
    have "keys ! i = projr (body i)" using k i by simp
    moreover have "body i = Inr (projr (body i))" using ok i by simp
    ultimately show ?thesis
      using emit_record_fields[of fcurves "map knot_map_by_frame fcurves" fps ts xfs frames i
          "projr (body i)"] unfolding body_def by simp
  qed
  then show ?thesis using len unfolding frames_def by blast
qed

lemma set_angle_props:
  assumes "set_angle ks w = Inr (ks', w')"
  shows "length ks' = length ks
       \<and> (\<forall>i < length ks. \<exists>angle. k_vals (ks ! i) = Some [angle]
             \<and> k_time (ks' ! i) = k_time (ks ! i) \<and> k_curve (ks' ! i) = k_curve (ks ! i)
             \<and> k_value (ks' ! i) = (if \<bar>angle\<bar> > 1 / 10 ^ 9 then Some angle else k_value (ks ! i)))
       \<and> (w' \<longleftrightarrow> w \<or> (\<exists>i < length ks. \<exists>angle. k_vals (ks ! i) = Some [angle]
                             \<and> \<bar>angle\<bar> > 1 / 10 ^ 9))"
  using assms
proof (induction ks arbitrary: w ks' w')
  case Nil
  then show ?case by simp
next
  case (Cons k ks)
  from Cons.prems obtain angle where a: "k_vals k = Some [angle]"
    by (auto split: option.splits list.splits)
  show ?case
  proof (cases "\<bar>angle\<bar> > 1 / 10 ^ 9")
    case True
    from Cons.prems a True obtain ks0 where
      r: "set_angle ks True = Inr (ks0, w')" and e: "ks' = k\<lparr>k_vals := None, k_value := Some angle\<rparr> # ks0"
      by (auto split: sum.splits)
    note ih = Cons.IH[OF r]
    have w: "w'" using ih by simp
    have 1: "length ks' = length (k # ks)" using ih e by simp
    have 2: "\<exists>angle. k_vals ((k # ks) ! i) = Some [angle]
             \<and> k_time (ks' ! i) = k_time ((k # ks) ! i) \<and> k_curve (ks' ! i) = k_curve ((k # ks) ! i)
             \<and> k_value (ks' ! i) = (if \<bar>angle\<bar> > 1 / 10 ^ 9 then Some angle else k_value ((k # ks) ! i))"
      if "i < length (k # ks)" for i
    proof (cases i)
      case 0
      then show ?thesis using a True e by simp
    next
      case (Suc j)
      then have "j < length ks" using that by simp
      with ih obtain b where "k_vals (ks ! j) = Some [b]"
          "k_time (ks0 ! j) = k_time (ks ! j)" "k_curve (ks0 ! j) = k_curve (ks ! j)"
          "k_value (ks0 ! j) = (if \<bar>b\<bar> > 1 / 10 ^ 9 then Some b else k_value (ks ! j))"
        by blast
      then show ?thesis unfolding Suc e by (intro exI[of _ b]) simp
    qed
    have 3: "\<exists>i < length (k # ks). \<exists>angle. k_vals ((k # ks) ! i) = Some [angle] \<and> \<bar>angle\<bar> > 1 / 10 ^ 9"
      using a True by (intro exI[of _ 0]) simp
    show ?thesis using 1 2 3 w by blast
  next
    case False
    from Cons.prems a False obtain ks0 where
      r: "set_angle ks w = Inr (ks0, w')" and e: "ks' = k\<lparr>k_vals := None\<rparr> # ks0"
      by (auto split: sum.splits)
    note ih = Cons.IH[OF r]
    have 1: "length ks' = length (k # ks)" using ih e by simp
    have 2: "\<exists>angle. k_vals ((k # ks) ! i) = Some [angle]
             \<and> k_time (ks' ! i) = k_time ((k # ks) ! i) \<and> k_curve (ks' ! i) = k_curve ((k # ks) ! i)
             \<and> k_value (ks' ! i) = (if \<bar>angle\<bar> > 1 / 10 ^ 9 then Some angle else k_value ((k # ks) ! i))"
      if "i < length (k # ks)" for i
    proof (cases i)
      case 0
      then show ?thesis using a False e by simp
    next
      case (Suc j)
      then have "j < length ks" using that by simp
      with ih obtain b where "k_vals (ks ! j) = Some [b]"
          "k_time (ks0 ! j) = k_time (ks ! j)" "k_curve (ks0 ! j) = k_curve (ks ! j)"
          "k_value (ks0 ! j) = (if \<bar>b\<bar> > 1 / 10 ^ 9 then Some b else k_value (ks ! j))"
        by blast
      then show ?thesis unfolding Suc e by (intro exI[of _ b]) simp
    qed
    have 3: "(\<exists>i < length (k # ks). \<exists>angle. k_vals ((k # ks) ! i) = Some [angle] \<and> \<bar>angle\<bar> > 1 / 10 ^ 9)
        \<longleftrightarrow> (\<exists>i < length ks. \<exists>angle. k_vals (ks ! i) = Some [angle] \<and> \<bar>angle\<bar> > 1 / 10 ^ 9)"
    proof
      assume "\<exists>i < length (k # ks). \<exists>angle. k_vals ((k # ks) ! i) = Some [angle] \<and> \<bar>angle\<bar> > 1 / 10 ^ 9"
      then obtain i b where i: "i < length (k # ks)" "k_vals ((k # ks) ! i) = Some [b]" "\<bar>b\<bar> > 1 / 10 ^ 9"
        by blast
      then obtain j where "i = Suc j" using a False by (cases i) auto
      then show "\<exists>i < length ks. \<exists>angle. k_vals (ks ! i) = Some [angle] \<and> \<bar>angle\<bar> > 1 / 10 ^ 9"
        using i by auto
    next
      assume "\<exists>i < length ks. \<exists>angle. k_vals (ks ! i) = Some [angle] \<and> \<bar>angle\<bar> > 1 / 10 ^ 9"
      then obtain j b where "j < length ks" "k_vals (ks ! j) = Some [b]" "\<bar>b\<bar> > 1 / 10 ^ 9" by blast
      then show "\<exists>i < length (k # ks). \<exists>angle. k_vals ((k # ks) ! i) = Some [angle] \<and> \<bar>angle\<bar> > 1 / 10 ^ 9"
        by (intro exI[of _ "Suc j"]) auto
    qed
    show ?thesis using 1 2 3 ih by blast
  qed
qed


lemma alist_update_mem:
  "(a, b) \<in> set (AList.update k v al) \<Longrightarrow> (a, b) = (k, v) \<or> (a, b) \<in> set al"
  by (induction al) (auto split: if_splits)

lemma bones_loop_entries:
  assumes "bones_loop act fps S d names bb = Inr out" "(bname, blk) \<in> set out"
  shows "(bname, blk) \<in> set bb \<or> bone_block act fps S d bname = Inr blk"
  using assms
proof (induction names arbitrary: bb)
  case Nil
  then show ?case by simp
next
  case (Cons n names)
  from Cons.prems(1) obtain b where b: "bone_block act fps S d n = Inr b"
    by (cases "bone_block act fps S d n") simp_all
  define bb' where "bb' = (if translate b \<noteq> None \<or> rotate b \<noteq> None \<or> scale b \<noteq> None
             then AList.update n b bb else bb)"
  have "bones_loop act fps S d names bb' = Inr out"
    using Cons.prems(1) b by (simp add: bb'_def)
  from Cons.IH[OF this Cons.prems(2)]
  show ?case
  proof
    assume "(bname, blk) \<in> set bb'"
    then have "(bname, blk) = (n, b) \<or> (bname, blk) \<in> set bb"
      using alist_update_mem[of bname blk n b bb] by (auto simp: bb'_def split: if_splits)
    then show ?thesis using b by auto
  next
    assume "bone_block act fps S d bname = Inr blk"
    then show ?thesis by simp
  qed
qed

lemma bone_block_parts:
  assumes "bone_block act fps S d bname = Inr blk"
  shows "translate_timeline act fps S bname = Inr (translate blk)
       \<and> rotate_timeline act fps d bname = Inr (rotate blk)
       \<and> scale_timeline act fps bname = Inr (scale blk)"
  using assms by (auto simp: bone_block_def split: sum.splits)

lemma build_animations_entry:
  assumes "build_animations (Some act) fps S d bone_names = Inr (Some (nm, bones_block))"
    "(bname, blk) \<in> set bones_block"
  shows "translate_timeline act fps S bname = Inr (translate blk)
       \<and> rotate_timeline act fps d bname = Inr (rotate blk)
       \<and> scale_timeline act fps bname = Inr (scale blk)"
proof -
  from assms(1) have "bones_loop act fps S d bone_names [] = Inr bones_block"
    by (auto simp: build_animations_def Let_def split: sum.splits)
  from bones_loop_entries[OF this assms(2)] have "bone_block act fps S d bname = Inr blk" by simp
  then show ?thesis by (rule bone_block_parts)
qed

lemma by_index_some:
  "by_index fcs i = Some fc \<Longrightarrow> fc \<in> set fcs \<and> array_index fc = i"
proof -
  have "foldl (\<lambda>m fc. m(array_index fc \<mapsto> fc)) m0 fcs i = Some fc
        \<Longrightarrow> m0 i = Some fc \<or> (fc \<in> set fcs \<and> array_index fc = i)" for m0
  proof (induction fcs arbitrary: m0)
    case Nil
    then show ?case by simp
  next
    case (Cons a fcs)
    have "foldl (\<lambda>m fc. m(array_index fc \<mapsto> fc)) (m0(array_index a \<mapsto> a)) fcs i = Some fc"
      using Cons.prems by (simp only: foldl_Cons)
    from Cons.IH[OF this] show ?case by (auto split: if_splits)
  qed
  from this[of Map.empty] show "by_index fcs i = Some fc \<Longrightarrow> fc \<in> set fcs \<and> array_index fc = i"
    by (simp add: by_index_def)
qed

lemma channel_pair_two:
  assumes "length (channel_pair m ix iy) = 2"
  shows "\<exists>fx fy. m ix = Some fx \<and> m iy = Some fy"
  using assms by (auto simp: channel_pair_def split: option.splits)

lemma pair_has_channels:
  assumes "length (channel_pair (by_index (fcurves_for_path act (bone_path bname prop) wl)) ix iy) = 2"
  shows "has_channel act bname prop ix \<and> has_channel act bname prop iy"
proof -
  from channel_pair_two[OF assms] obtain fx fy where
    "by_index (fcurves_for_path act (bone_path bname prop) wl) ix = Some fx"
    "by_index (fcurves_for_path act (bone_path bname prop) wl) iy = Some fy" by blast
  then have "fx \<in> set (fcurves_for_path act (bone_path bname prop) wl) \<and> array_index fx = ix"
    "fy \<in> set (fcurves_for_path act (bone_path bname prop) wl) \<and> array_index fy = iy"
    using by_index_some by blast+
  then show ?thesis by (auto simp: has_channel_def fcurves_for_path_def)
qed

lemma translate_needs_both:
  assumes "translate_timeline act fps S bname = Inr (Some keys)"
  shows "has_channel act bname ''location'' 1 \<and> has_channel act bname ''location'' 0"
proof -
  have "length (channel_pair (by_index (fcurves_for_path act (bone_path bname ''location'')
          (Some [0, 1, 2]))) 1 0) = 2"
    using assms by (simp add: translate_timeline_def Let_def split: if_splits)
  then show ?thesis by (rule pair_has_channels)
qed

lemma scale_needs_both:
  assumes "scale_timeline act fps bname = Inr (Some keys)"
  shows "has_channel act bname ''scale'' 0 \<and> has_channel act bname ''scale'' 2"
proof -
  have "length (channel_pair (by_index (fcurves_for_path act (bone_path bname ''scale'')
          (Some [0, 1, 2]))) 0 2) = 2"
    using assms by (simp add: scale_timeline_def Let_def split: if_splits)
  then show ?thesis by (rule pair_has_channels)
qed

text \<open>
  Claim C10. For every bone with an entry in the result of \<open>build_animations\<close>, a
  translate timeline is there only when the action has F-curves of the bone's location
  on both mapped array indices (1 and 0), and a scale timeline only when it has F-curves
  of the bone's scale on both mapped indices (0 and 2). With one channel of a pair
  missing, the timeline of that kind is absent.
\<close>

theorem timelines_need_both_channels:
  assumes "build_animations (Some act) fps SCALE degrees bone_names = Inr (Some (nm, bones_block))"
    and "(bname, blk) \<in> set bones_block"
  shows "(translate blk \<noteq> None \<longrightarrow>
            has_channel act bname ''location'' 1 \<and> has_channel act bname ''location'' 0)
       \<and> (scale blk \<noteq> None \<longrightarrow>
            has_channel act bname ''scale'' 0 \<and> has_channel act bname ''scale'' 2)"
proof -
  note e = build_animations_entry[OF assms]
  have t: "has_channel act bname ''location'' 1 \<and> has_channel act bname ''location'' 0"
    if "translate blk \<noteq> None"
  proof -
    from that obtain keys where "translate blk = Some keys" by auto
    with e have "translate_timeline act fps SCALE bname = Inr (Some keys)" by simp
    then show ?thesis by (rule translate_needs_both)
  qed
  have s: "has_channel act bname ''scale'' 0 \<and> has_channel act bname ''scale'' 2"
    if "scale blk \<noteq> None"
  proof -
    from that obtain keys where "scale blk = Some keys" by auto
    with e have "scale_timeline act fps bname = Inr (Some keys)" by simp
    then show ?thesis by (rule scale_needs_both)
  qed
  show ?thesis using t s by blast
qed

lemma rotate_timeline_keys:
  assumes "rotate_timeline act fps degrees bname = Inr (Some keys)"
  shows "\<exists>fc ekeys so.
        fcurves_for_path act (bone_path bname ''rotation_euler'') (Some [2]) = [fc]
      \<and> emit_channel_timelines fps [fc] (\<lambda>f. scene_seconds (of_int f) fps)
            [\<lambda>v. py_round (degrees v) 4] = Inr (ekeys, so)
      \<and> length keys = length ekeys
      \<and> length keys = length (key_frames [fc])
      \<and> (\<forall>i < length keys.
            k_time (keys ! i) = py_round (scene_seconds (of_int (key_frames [fc] ! i)) fps) 6
          \<and> k_time (keys ! i) = k_time (ekeys ! i)
          \<and> k_curve (keys ! i) = k_curve (ekeys ! i)
          \<and> k_value (keys ! i) =
              (if \<bar>py_round (degrees (evaluate fc (key_frames [fc] ! i))) 4\<bar> > 1 / 10 ^ 9
               then Some (py_round (degrees (evaluate fc (key_frames [fc] ! i))) 4) else None))
      \<and> (\<exists>i < length keys.
            \<bar>py_round (degrees (evaluate fc (key_frames [fc] ! i))) 4\<bar> > 1 / 10 ^ 9)"
proof -
  define rot_fc where "rot_fc = fcurves_for_path act (bone_path bname ''rotation_euler'') (Some [2])"
  define ts where "ts = (\<lambda>f. scene_seconds (of_int f) fps)"
  define rxf where "rxf = (\<lambda>v. py_round (degrees v) 4)"
  have ne: "rot_fc \<noteq> []"
    using assms by (auto simp: rotate_timeline_def rot_fc_def Let_def split: if_splits)
  from assms ne obtain ekeys so where
    em: "emit_channel_timelines fps rot_fc ts [rxf] = Inr (ekeys, so)"
    by (cases "emit_channel_timelines fps rot_fc ts [rxf]")
       (auto simp: rotate_timeline_def rot_fc_def[symmetric] ts_def[symmetric] rxf_def[symmetric] Let_def)
  have ene: "ekeys \<noteq> []" and sa: "set_angle ekeys False = Inr (keys, True)"
    using assms ne em
    by (auto simp: rotate_timeline_def rot_fc_def[symmetric] ts_def[symmetric] rxf_def[symmetric]
        Let_def split: if_splits sum.splits)
  note ef = emit_fields[OF em ene]
  note sp = set_angle_props[OF sa]
  have len: "length keys = length (key_frames rot_fc)" using ef sp by simp
  have pos: "0 < length ekeys" using ene by simp
  from sp pos obtain a0 where a0: "k_vals (ekeys ! 0) = Some [a0]" by blast
  with ef pos have "length (enumerate 0 rot_fc) = 1"
    by (metis length_Cons length_map list.size(3) option.inject One_nat_def)
  then have "length rot_fc = 1" by simp
  then obtain fc where fc: "rot_fc = [fc]" by (cases rot_fc) auto
  have vals: "k_vals (ekeys ! i) = Some [rxf (evaluate fc (key_frames [fc] ! i))]"
    if "i < length ekeys" for i
    using ef that by (simp add: fc channel_xform_def)
  have item: "k_time (keys ! i) = py_round (ts (key_frames [fc] ! i)) 6
          \<and> k_time (keys ! i) = k_time (ekeys ! i)
          \<and> k_curve (keys ! i) = k_curve (ekeys ! i)
          \<and> k_value (keys ! i) =
              (if \<bar>rxf (evaluate fc (key_frames [fc] ! i))\<bar> > 1 / 10 ^ 9
               then Some (rxf (evaluate fc (key_frames [fc] ! i))) else None)"
    if "i < length keys" for i
  proof -
    have i: "i < length ekeys" using that sp by simp
    from sp i obtain b where b: "k_vals (ekeys ! i) = Some [b]"
      "k_time (keys ! i) = k_time (ekeys ! i)"
      "k_curve (keys ! i) = k_curve (ekeys ! i)"
      "k_value (keys ! i) = (if \<bar>b\<bar> > 1 / 10 ^ 9 then Some b else k_value (ekeys ! i))"
      by blast
    have "b = rxf (evaluate fc (key_frames [fc] ! i))" using b(1) vals[OF i] by simp
    moreover have "k_value (ekeys ! i) = None" "k_time (ekeys ! i) = py_round (ts (key_frames [fc] ! i)) 6"
      using ef i by (simp_all add: fc)
    ultimately show ?thesis using b by simp
  qed
  from sp obtain i b where ib: "i < length ekeys" "k_vals (ekeys ! i) = Some [b]" "\<bar>b\<bar> > 1 / 10 ^ 9"
    by auto
  then have "\<bar>rxf (evaluate fc (key_frames [fc] ! i))\<bar> > 1 / 10 ^ 9" using vals[OF ib(1)] by simp
  moreover have "i < length keys" using ib(1) sp by simp
  ultimately have ex: "\<exists>i < length keys. \<bar>rxf (evaluate fc (key_frames [fc] ! i))\<bar> > 1 / 10 ^ 9"
    by blast
  have lene: "length keys = length ekeys" using sp by simp
  have em1: "emit_channel_timelines fps [fc] ts [rxf] = Inr (ekeys, so)" using em fc by simp
  have len1: "length keys = length (key_frames [fc])" using len fc by simp
  have fc1: "fcurves_for_path act (bone_path bname ''rotation_euler'') (Some [2]) = [fc]"
    using fc by (simp add: rot_fc_def)
  show ?thesis
    using fc1 em1 lene len1 item ex unfolding ts_def rxf_def
    by (intro exI[of _ fc] exI[of _ ekeys] exI[of _ so]) blast
qed


lemma example_build:
  "build_animations (Some example_action) 24 100 example_degrees [''root'', ''arm'']
     = Inr (Some (''Walk'', [(''arm'', \<lparr>translate =
             Some
              [\<lparr>k_time = 0, k_vals = None, k_curve = Some Stepped,
                  k_x = Some 0, k_y = Some 0, k_value = None\<rparr>,
               \<lparr>k_time = 1 / 2, k_vals = None, k_curve = None,
                  k_x = Some 100, k_y = Some 100, k_value = None\<rparr>,
               \<lparr>k_time = 1, k_vals = None, k_curve = None, k_x = Some 100,
                  k_y = Some 100, k_value = None\<rparr>],
             rotate =
               Some
                [\<lparr>k_time = 0, k_vals = None,
                    k_curve =
                      Some (CurveArray [333333 / 1000000, 0, 666667 / 1000000, 286479 / 5000]),
                    k_x = None, k_y = None, k_value = None\<rparr>,
                 \<lparr>k_time = 1, k_vals = None, k_curve = None, k_x = None,
                    k_y = None, k_value = Some (286479 / 5000)\<rparr>],
             scale = None\<rparr>)]))"
  by code_simp

theorem timelines_need_both_channels_witness:
  "build_animations (Some example_action) 24 100 example_degrees [''root'', ''arm'']
     = Inr (Some (''Walk'', [(''arm'', \<lparr>translate =
             Some
              [\<lparr>k_time = 0, k_vals = None, k_curve = Some Stepped,
                  k_x = Some 0, k_y = Some 0, k_value = None\<rparr>,
               \<lparr>k_time = 1 / 2, k_vals = None, k_curve = None,
                  k_x = Some 100, k_y = Some 100, k_value = None\<rparr>,
               \<lparr>k_time = 1, k_vals = None, k_curve = None, k_x = Some 100,
                  k_y = Some 100, k_value = None\<rparr>],
             rotate =
               Some
                [\<lparr>k_time = 0, k_vals = None,
                    k_curve =
                      Some (CurveArray [333333 / 1000000, 0, 666667 / 1000000, 286479 / 5000]),
                    k_x = None, k_y = None, k_value = None\<rparr>,
                 \<lparr>k_time = 1, k_vals = None, k_curve = None, k_x = None,
                    k_y = None, k_value = Some (286479 / 5000)\<rparr>],
             scale = None\<rparr>)]))
   \<and> has_channel example_action ''arm'' ''location'' 1
   \<and> has_channel example_action ''arm'' ''location'' 0"
proof -
  have m: "(''arm'', \<lparr>translate =
             Some
              [\<lparr>k_time = 0, k_vals = None, k_curve = Some Stepped,
                  k_x = Some 0, k_y = Some 0, k_value = None\<rparr>,
               \<lparr>k_time = 1 / 2, k_vals = None, k_curve = None,
                  k_x = Some 100, k_y = Some 100, k_value = None\<rparr>,
               \<lparr>k_time = 1, k_vals = None, k_curve = None, k_x = Some 100,
                  k_y = Some 100, k_value = None\<rparr>],
             rotate =
               Some
                [\<lparr>k_time = 0, k_vals = None,
                    k_curve =
                      Some (CurveArray [333333 / 1000000, 0, 666667 / 1000000, 286479 / 5000]),
                    k_x = None, k_y = None, k_value = None\<rparr>,
                 \<lparr>k_time = 1, k_vals = None, k_curve = None, k_x = None,
                    k_y = None, k_value = Some (286479 / 5000)\<rparr>],
             scale = None\<rparr>) \<in> set [(''arm'', \<lparr>translate =
             Some
              [\<lparr>k_time = 0, k_vals = None, k_curve = Some Stepped,
                  k_x = Some 0, k_y = Some 0, k_value = None\<rparr>,
               \<lparr>k_time = 1 / 2, k_vals = None, k_curve = None,
                  k_x = Some 100, k_y = Some 100, k_value = None\<rparr>,
               \<lparr>k_time = 1, k_vals = None, k_curve = None, k_x = Some 100,
                  k_y = Some 100, k_value = None\<rparr>],
             rotate =
               Some
                [\<lparr>k_time = 0, k_vals = None,
                    k_curve =
                      Some (CurveArray [333333 / 1000000, 0, 666667 / 1000000, 286479 / 5000]),
                    k_x = None, k_y = None, k_value = None\<rparr>,
                 \<lparr>k_time = 1, k_vals = None, k_curve = None, k_x = None,
                    k_y = None, k_value = Some (286479 / 5000)\<rparr>],
             scale = None\<rparr>)]" by simp
  from timelines_need_both_channels[OF example_build m]
  have "has_channel example_action ''arm'' ''location'' 1
      \<and> has_channel example_action ''arm'' ''location'' 0" by simp
  then show ?thesis using example_build by blast
qed

text \<open>
  Claim C8, as the code has it. In the rotate timeline of a bone in the result of
  \<open>build_animations\<close>, every sampled keyframe of the bone's rotation curve has its
  record, in order; a record carries the key \<open>value\<close>, the transformed angle, exactly
  when the angle's magnitude exceeds \<open>1e-9\<close>, and is kept without that key otherwise,
  with the \<open>time\<close> and the \<open>curve\<close> that \<open>_emit_channel_timelines\<close> gave it;
  the timeline is there only when at least one record carries a value.
\<close>

theorem rotate_keys_kept_without_value:
  assumes "build_animations (Some act) fps SCALE degrees bone_names = Inr (Some (nm, bones_block))"
    and "(bname, blk) \<in> set bones_block"
    and "rotate blk = Some keys"
  shows "\<exists>fc ekeys so.
        fcurves_for_path act (bone_path bname ''rotation_euler'') (Some [2]) = [fc]
      \<and> emit_channel_timelines fps [fc] (\<lambda>f. scene_seconds (of_int f) fps)
            [\<lambda>v. py_round (degrees v) 4] = Inr (ekeys, so)
      \<and> length keys = length ekeys
      \<and> length keys = length (key_frames [fc])
      \<and> (\<forall>i < length keys.
            k_time (keys ! i) = py_round (scene_seconds (of_int (key_frames [fc] ! i)) fps) 6
          \<and> k_time (keys ! i) = k_time (ekeys ! i)
          \<and> k_curve (keys ! i) = k_curve (ekeys ! i)
          \<and> k_value (keys ! i) =
              (if \<bar>py_round (degrees (evaluate fc (key_frames [fc] ! i))) 4\<bar> > 1 / 10 ^ 9
               then Some (py_round (degrees (evaluate fc (key_frames [fc] ! i))) 4) else None))
      \<and> (\<exists>i < length keys.
            \<bar>py_round (degrees (evaluate fc (key_frames [fc] ! i))) 4\<bar> > 1 / 10 ^ 9)"
proof -
  have "rotate_timeline act fps degrees bname = Inr (Some keys)"
    using build_animations_entry[OF assms(1,2)] assms(3) by simp
  then show ?thesis by (rule rotate_timeline_keys)
qed

theorem rotate_keys_kept_without_value_witness:
  "build_animations (Some example_action) 24 100 example_degrees [''root'', ''arm'']
     = Inr (Some (''Walk'', [(''arm'', \<lparr>translate =
             Some
              [\<lparr>k_time = 0, k_vals = None, k_curve = Some Stepped,
                  k_x = Some 0, k_y = Some 0, k_value = None\<rparr>,
               \<lparr>k_time = 1 / 2, k_vals = None, k_curve = None,
                  k_x = Some 100, k_y = Some 100, k_value = None\<rparr>,
               \<lparr>k_time = 1, k_vals = None, k_curve = None, k_x = Some 100,
                  k_y = Some 100, k_value = None\<rparr>],
             rotate =
               Some
                [\<lparr>k_time = 0, k_vals = None,
                    k_curve =
                      Some (CurveArray [333333 / 1000000, 0, 666667 / 1000000, 286479 / 5000]),
                    k_x = None, k_y = None, k_value = None\<rparr>,
                 \<lparr>k_time = 1, k_vals = None, k_curve = None, k_x = None,
                    k_y = None, k_value = Some (286479 / 5000)\<rparr>],
             scale = None\<rparr>)]))
   \<and> (\<exists>fc. fcurves_for_path example_action (bone_path ''arm'' ''rotation_euler'') (Some [2]) = [fc]
          \<and> length [\<lparr>k_time = 0, k_vals = None,
                    k_curve =
                      Some (CurveArray [333333 / 1000000, 0, 666667 / 1000000, 286479 / 5000]),
                    k_x = None, k_y = None, k_value = None\<rparr>,
                 \<lparr>k_time = 1, k_vals = None, k_curve = None, k_x = None,
                    k_y = None, k_value = Some (286479 / 5000)\<rparr>] = length (key_frames [fc]))"
proof -
  have m: "(''arm'', \<lparr>translate =
             Some
              [\<lparr>k_time = 0, k_vals = None, k_curve = Some Stepped,
                  k_x = Some 0, k_y = Some 0, k_value = None\<rparr>,
               \<lparr>k_time = 1 / 2, k_vals = None, k_curve = None,
                  k_x = Some 100, k_y = Some 100, k_value = None\<rparr>,
               \<lparr>k_time = 1, k_vals = None, k_curve = None, k_x = Some 100,
                  k_y = Some 100, k_value = None\<rparr>],
             rotate =
               Some
                [\<lparr>k_time = 0, k_vals = None,
                    k_curve =
                      Some (CurveArray [333333 / 1000000, 0, 666667 / 1000000, 286479 / 5000]),
                    k_x = None, k_y = None, k_value = None\<rparr>,
                 \<lparr>k_time = 1, k_vals = None, k_curve = None, k_x = None,
                    k_y = None, k_value = Some (286479 / 5000)\<rparr>],
             scale = None\<rparr>) \<in> set [(''arm'', \<lparr>translate =
             Some
              [\<lparr>k_time = 0, k_vals = None, k_curve = Some Stepped,
                  k_x = Some 0, k_y = Some 0, k_value = None\<rparr>,
               \<lparr>k_time = 1 / 2, k_vals = None, k_curve = None,
                  k_x = Some 100, k_y = Some 100, k_value = None\<rparr>,
               \<lparr>k_time = 1, k_vals = None, k_curve = None, k_x = Some 100,
                  k_y = Some 100, k_value = None\<rparr>],
             rotate =
               Some
                [\<lparr>k_time = 0, k_vals = None,
                    k_curve =
                      Some (CurveArray [333333 / 1000000, 0, 666667 / 1000000, 286479 / 5000]),
                    k_x = None, k_y = None, k_value = None\<rparr>,
                 \<lparr>k_time = 1, k_vals = None, k_curve = None, k_x = None,
                    k_y = None, k_value = Some (286479 / 5000)\<rparr>],
             scale = None\<rparr>)]" by simp
  have r: "rotate \<lparr>translate =
             Some
              [\<lparr>k_time = 0, k_vals = None, k_curve = Some Stepped,
                  k_x = Some 0, k_y = Some 0, k_value = None\<rparr>,
               \<lparr>k_time = 1 / 2, k_vals = None, k_curve = None,
                  k_x = Some 100, k_y = Some 100, k_value = None\<rparr>,
               \<lparr>k_time = 1, k_vals = None, k_curve = None, k_x = Some 100,
                  k_y = Some 100, k_value = None\<rparr>],
             rotate =
               Some
                [\<lparr>k_time = 0, k_vals = None,
                    k_curve =
                      Some (CurveArray [333333 / 1000000, 0, 666667 / 1000000, 286479 / 5000]),
                    k_x = None, k_y = None, k_value = None\<rparr>,
                 \<lparr>k_time = 1, k_vals = None, k_curve = None, k_x = None,
                    k_y = None, k_value = Some (286479 / 5000)\<rparr>],
             scale = None\<rparr> = Some [\<lparr>k_time = 0, k_vals = None,
                    k_curve =
                      Some (CurveArray [333333 / 1000000, 0, 666667 / 1000000, 286479 / 5000]),
                    k_x = None, k_y = None, k_value = None\<rparr>,
                 \<lparr>k_time = 1, k_vals = None, k_curve = None, k_x = None,
                    k_y = None, k_value = Some (286479 / 5000)\<rparr>]" by simp
  from rotate_keys_kept_without_value[OF example_build m r]
  have "\<exists>fc. fcurves_for_path example_action (bone_path ''arm'' ''rotation_euler'') (Some [2]) = [fc]
          \<and> length [\<lparr>k_time = 0, k_vals = None,
                    k_curve =
                      Some (CurveArray [333333 / 1000000, 0, 666667 / 1000000, 286479 / 5000]),
                    k_x = None, k_y = None, k_value = None\<rparr>,
                 \<lparr>k_time = 1, k_vals = None, k_curve = None, k_x = None,
                    k_y = None, k_value = Some (286479 / 5000)\<rparr>] = length (key_frames [fc])" by blast
  then show ?thesis using example_build by blast
qed

text \<open>
  The claim as stated says that a keyframe whose angle is at most \<open>1e-9\<close> in magnitude is
  left out of the rotate timeline. The rotation curve of the example bone is 0 at frame 0
  and 1 radian at frame 24: its rotate timeline has both records, the first one (time 0)
  without a \<open>value\<close>.
\<close>

theorem rotate_zero_key_kept_counterexample:
  "evaluate example_rot_curve 0 = 0
   \<and> rotate_timeline example_action 24 example_degrees ''arm'' = Inr (Some [\<lparr>k_time = 0, k_vals = None,
                    k_curve =
                      Some (CurveArray [333333 / 1000000, 0, 666667 / 1000000, 286479 / 5000]),
                    k_x = None, k_y = None, k_value = None\<rparr>,
                 \<lparr>k_time = 1, k_vals = None, k_curve = None, k_x = None,
                    k_y = None, k_value = Some (286479 / 5000)\<rparr>])
   \<and> build_animations (Some example_action) 24 100 example_degrees [''root'', ''arm'']
     = Inr (Some (''Walk'', [(''arm'', \<lparr>translate =
             Some
              [\<lparr>k_time = 0, k_vals = None, k_curve = Some Stepped,
                  k_x = Some 0, k_y = Some 0, k_value = None\<rparr>,
               \<lparr>k_time = 1 / 2, k_vals = None, k_curve = None,
                  k_x = Some 100, k_y = Some 100, k_value = None\<rparr>,
               \<lparr>k_time = 1, k_vals = None, k_curve = None, k_x = Some 100,
                  k_y = Some 100, k_value = None\<rparr>],
             rotate =
               Some
                [\<lparr>k_time = 0, k_vals = None,
                    k_curve =
                      Some (CurveArray [333333 / 1000000, 0, 666667 / 1000000, 286479 / 5000]),
                    k_x = None, k_y = None, k_value = None\<rparr>,
                 \<lparr>k_time = 1, k_vals = None, k_curve = None, k_x = None,
                    k_y = None, k_value = Some (286479 / 5000)\<rparr>],
             scale = None\<rparr>)]))"
  by code_simp

section \<open>The convex hull\<close>


lemma area2_same [simp]: "area2 a a b = 0" "area2 a b a = 0" "area2 a b b = 0"
  by (simp_all add: area2_def)



































lemma area2_negp [simp]: "area2 (negp a) (negp b) (negp c) = area2 a b c"
  by (simp add: area2_def negp_def algebra_simps)

lemma negp_less [simp]: "negp a < negp b \<longleftrightarrow> b < a"
  by (auto simp: negp_def less_prod_def)



































end
